theory Spec2Isabelle
  imports Main "HOL-Library.Word"
begin

section \<open>The block allocator of malloc.c\<close>

text \<open>
  The development embeds the allocator of \<^verbatim>\<open>src/malloc.c\<close> for an LP64 target:
  \<^verbatim>\<open>size_t\<close> and pointers are 64-bit words, \<^verbatim>\<open>int\<close> is a 32-bit word, and
  \<^verbatim>\<open>sizeof(struct mem_block)\<close> is 8 + 8 + 4 + 4 = 24 bytes. The null pointer is the
  word 0 and \<^verbatim>\<open>(void *) -1\<close> is the word of all ones.

  Memory is kept in two views, as the program itself uses it: the metadata records that
  are read and written through \<^verbatim>\<open>struct mem_block *\<close>, indexed by the address of the
  record, and the payload bytes that \<^verbatim>\<open>memset\<close> and \<^verbatim>\<open>memcpy\<close> touch. The two
  views do not interfere in a well-formed heap, where records and payloads are laid out
  one after the other (\<open>layout\<close> below) and every byte range the program writes is covered
  by the recorded size of its block. Accesses never fault in the model; whether an address
  lies inside the data segment is stated explicitly in the theorems where it matters.
  \<^verbatim>\<open>simple_malloc\<close> and \<^verbatim>\<open>main\<close> are not part of the allocator and are not modelled.
\<close>

subsection \<open>Data model\<close>

type_synonym addr = "64 word"
type_synonym size_t = "64 word"
type_synonym c_int = "32 word"

text \<open>\<^verbatim>\<open>struct mem_block\<close> (lines 31-36). The field \<^verbatim>\<open>size\<close> is called \<open>size_blk\<close> and the
  field \<^verbatim>\<open>next\<close> is called \<open>next_blk\<close>, since both names are taken in Isabelle.\<close>

record mem_block =
  size_blk :: size_t
  next_blk :: addr
  free :: c_int
  debug_flag :: c_int

text \<open>\<^verbatim>\<open>#define BLOCK_SIZE sizeof(struct mem_block)\<close> (line 39), on LP64.\<close>

definition BLOCK_SIZE :: size_t where
  "BLOCK_SIZE = 24"

text \<open>
  The state of the process as far as the allocator sees it: the global \<^verbatim>\<open>base\<close>
  (line 42), the program break \<open>brk\<close> together with the bounds \<open>brk_min\<close> (the break at
  program start) and \<open>brk_max\<close> (the highest break the system is willing to grant), the
  metadata records and the bytes of memory.
\<close>

record heap =
  base :: addr
  brk :: addr
  brk_min :: addr
  brk_max :: addr
  blocks :: "addr \<Rightarrow> mem_block"
  bytes :: "addr \<Rightarrow> 8 word"

text \<open>A failed \<^verbatim>\<open>assert\<close> terminates the process: \<open>Abort\<close>. Otherwise a call returns.\<close>

datatype 'a result = Abort | Return 'a

subsection \<open>The C library\<close>

text \<open>
  \<^verbatim>\<open>sbrk\<close> belongs to the C library, not to this repository. It is modelled after its
  manual page: the increment is a signed \<^verbatim>\<open>intptr_t\<close>; on success the break moves by
  the increment and the previous break is returned; on failure \<^verbatim>\<open>(void *) -1\<close> is
  returned and the break stays. The request fails when the new break would leave the
  range from \<open>brk_min\<close> to \<open>brk_max\<close>.
\<close>

definition sbrk :: "64 word \<Rightarrow> heap \<Rightarrow> addr \<times> heap" where
  "sbrk increment h =
     (let new_brk = uint (brk h) + sint increment in
      if new_brk < uint (brk_min h) \<or> uint (brk_max h) < new_brk then (- 1, h)
      else (brk h, h\<lparr>brk := word_of_int new_brk\<rparr>))"

text \<open>\<^verbatim>\<open>memset(s, c, n)\<close> writes \<open>c\<close> to the \<open>n\<close> bytes starting at \<open>s\<close>: exactly the
  addresses \<open>a\<close> whose offset \<open>a - s\<close> is below \<open>n\<close>.\<close>

definition memset :: "addr \<Rightarrow> 8 word \<Rightarrow> size_t \<Rightarrow> heap \<Rightarrow> heap" where
  "memset s c n h = h\<lparr>bytes := (\<lambda>a. if a - s < n then c else bytes h a)\<rparr>"

text \<open>\<^verbatim>\<open>memcpy(dest, src, n)\<close> copies \<open>n\<close> bytes. The C standard defines it only for
  regions that do not overlap; \<open>regions_overlap\<close> is that condition, and the theorems
  about \<^verbatim>\<open>reallocate_memory\<close> show that it does not arise.\<close>

definition regions_overlap :: "addr \<Rightarrow> addr \<Rightarrow> size_t \<Rightarrow> bool" where
  "regions_overlap dest src n \<longleftrightarrow> n \<noteq> 0 \<and> (src - dest < n \<or> dest - src < n)"

definition memcpy :: "addr \<Rightarrow> addr \<Rightarrow> size_t \<Rightarrow> heap \<Rightarrow> heap" where
  "memcpy dest src n h =
     h\<lparr>bytes := (\<lambda>a. if a - dest < n then bytes h (src + (a - dest)) else bytes h a)\<rparr>"

subsection \<open>The functions of malloc.c\<close>

text \<open>\<^verbatim>\<open>locate_free_block\<close> (lines 46-54). The loop is \<open>locate_loop\<close>; it has no bound
  of its own, so a run that never ends is the value \<open>None\<close>. The result is the pair of the
  returned block and the final value of \<^verbatim>\<open>*last\<close> (\<open>last_blk\<close>, as \<open>last\<close> is
  a list function in Isabelle).\<close>

partial_function (option) locate_loop ::
  "heap \<Rightarrow> size_t \<Rightarrow> addr \<Rightarrow> addr \<Rightarrow> (addr \<times> addr) option" where
  "locate_loop h sz current last_blk =
     (if current \<noteq> 0 \<and>
         \<not> (free (blocks h current) \<noteq> 0 \<and> sz \<le> size_blk (blocks h current))
      then locate_loop h sz (next_blk (blocks h current)) current
      else Some (current, last_blk))"

declare locate_loop.simps [code]

definition locate_free_block :: "addr \<Rightarrow> size_t \<Rightarrow> heap \<Rightarrow> (addr \<times> addr) option" where
  "locate_free_block last_blk sz h = locate_loop h sz (base h) last_blk"

text \<open>\<^verbatim>\<open>extend_memory\<close> (lines 57-81).\<close>

definition extend_memory :: "addr \<Rightarrow> size_t \<Rightarrow> heap \<Rightarrow> (addr \<times> heap) result" where
  "extend_memory last_blk sz h =
     (let (block, h1) = sbrk 0 h;
          (new_break, h2) = sbrk (sz + BLOCK_SIZE) h1
      in if new_break = - 1 then Return (0, h2)
         else if block \<noteq> new_break then Abort
         else
           let h3 = (if last_blk \<noteq> 0
                     then h2\<lparr>blocks := (blocks h2)(last_blk := (blocks h2 last_blk)
                            \<lparr>next_blk := block\<rparr>)\<rparr>
                     else h2);
               h4 = h3\<lparr>blocks := (blocks h3)(block := (blocks h3 block)
                        \<lparr>size_blk := sz, next_blk := 0, free := 0, debug_flag := 0x12345678\<rparr>)\<rparr>
           in Return (block, h4))"

text \<open>\<^verbatim>\<open>allocate_memory\<close> (lines 84-117). \<open>None\<close> is a scan that never ends.\<close>

definition allocate_memory :: "size_t \<Rightarrow> heap \<Rightarrow> (addr \<times> heap) result option" where
  "allocate_memory sz h =
     (if sz \<le> 0 then Some (Return (0, h))
      else if base h = 0 then
        (case extend_memory 0 sz h of
           Abort \<Rightarrow> Some Abort
         | Return (block, h1) \<Rightarrow>
             if block = 0 then Some (Return (0, h1))
             else Some (Return (block + BLOCK_SIZE, h1\<lparr>base := block\<rparr>)))
      else
        (case locate_free_block (base h) sz h of
           None \<Rightarrow> None
         | Some (block, last_blk) \<Rightarrow>
             if block = 0 then
               (case extend_memory last_blk sz h of
                  Abort \<Rightarrow> Some Abort
                | Return (block', h1) \<Rightarrow>
                    if block' = 0 then Some (Return (0, h1))
                    else Some (Return (block' + BLOCK_SIZE, h1)))
             else
               Some (Return (block + BLOCK_SIZE,
                 h\<lparr>blocks := (blocks h)(block := (blocks h block)
                      \<lparr>free := 0, debug_flag := 0x77777777\<rparr>)\<rparr>))))"

text \<open>\<^verbatim>\<open>zero_allocate\<close> (lines 120-127). \<open>total_size\<close> is the product of line 121, a
  multiplication of two \<^verbatim>\<open>size_t\<close> values.\<close>

definition total_size :: "size_t \<Rightarrow> size_t \<Rightarrow> size_t" where
  "total_size elements element_size = elements * element_size"

definition zero_allocate :: "size_t \<Rightarrow> size_t \<Rightarrow> heap \<Rightarrow> (addr \<times> heap) result option" where
  "zero_allocate elements element_size h =
     (case allocate_memory (total_size elements element_size) h of
        None \<Rightarrow> None
      | Some Abort \<Rightarrow> Some Abort
      | Some (Return (ptr, h1)) \<Rightarrow>
          if ptr \<noteq> 0
          then Some (Return (ptr, memset ptr 0 (total_size elements element_size) h1))
          else Some (Return (ptr, h1)))"

text \<open>\<^verbatim>\<open>retrieve_block_ptr\<close> (lines 130-132).\<close>

definition retrieve_block_ptr :: "addr \<Rightarrow> addr" where
  "retrieve_block_ptr ptr = ptr - BLOCK_SIZE"

text \<open>\<^verbatim>\<open>release_memory\<close> (lines 135-145), with its two assertions.\<close>

definition release_memory :: "addr \<Rightarrow> heap \<Rightarrow> heap result" where
  "release_memory ptr h =
     (if ptr = 0 then Return h
      else
        let block_ptr = retrieve_block_ptr ptr in
        if \<not> (free (blocks h block_ptr) = 0) then Abort
        else if \<not> (debug_flag (blocks h block_ptr) = 0x77777777
                  \<or> debug_flag (blocks h block_ptr) = 0x12345678) then Abort
        else Return (h\<lparr>blocks := (blocks h)(block_ptr := (blocks h block_ptr)
                        \<lparr>free := 1, debug_flag := 0x55555555\<rparr>)\<rparr>))"

text \<open>\<^verbatim>\<open>reallocate_memory\<close> (lines 148-169).\<close>

definition reallocate_memory :: "addr \<Rightarrow> size_t \<Rightarrow> heap \<Rightarrow> (addr \<times> heap) result option" where
  "reallocate_memory ptr sz h =
     (if ptr = 0 then allocate_memory sz h
      else
        let block_ptr = retrieve_block_ptr ptr in
        if sz \<le> size_blk (blocks h block_ptr) then Some (Return (ptr, h))
        else
          (case allocate_memory sz h of
             None \<Rightarrow> None
           | Some Abort \<Rightarrow> Some Abort
           | Some (Return (new_ptr, h1)) \<Rightarrow>
               if new_ptr = 0 then Some (Return (0, h1))
               else
                 (case release_memory ptr
                         (memcpy new_ptr ptr (size_blk (blocks h1 block_ptr)) h1) of
                    Abort \<Rightarrow> Some Abort
                  | Return h3 \<Rightarrow> Some (Return (new_ptr, h3)))))"

subsection \<open>Well-formed heaps\<close>

text \<open>A block qualifies for reuse when it is free and large enough (line 49).\<close>

definition fits :: "heap \<Rightarrow> size_t \<Rightarrow> addr \<Rightarrow> bool" where
  "fits h sz b \<longleftrightarrow> free (blocks h b) \<noteq> 0 \<and> sz \<le> size_blk (blocks h b)"

text \<open>\<open>block_list h p bs\<close>: following \<^verbatim>\<open>next\<close> from \<open>p\<close> visits exactly the blocks \<open>bs\<close>
  and then reaches the null pointer.\<close>

fun block_list :: "heap \<Rightarrow> addr \<Rightarrow> addr list \<Rightarrow> bool" where
  "block_list h p [] = (p = 0)"
| "block_list h p (b # bs) = (p = b \<and> b \<noteq> 0 \<and> block_list h (next_blk (blocks h b)) bs)"

text \<open>\<open>in_use h p\<close>: the block one metadata record before the user pointer \<open>p\<close> is not
  free and carries one of the two in-use tags.\<close>

definition in_use :: "heap \<Rightarrow> addr \<Rightarrow> bool" where
  "in_use h p \<longleftrightarrow>
     free (blocks h (retrieve_block_ptr p)) = 0 \<and>
     (debug_flag (blocks h (retrieve_block_ptr p)) = 0x12345678 \<or>
      debug_flag (blocks h (retrieve_block_ptr p)) = 0x77777777)"

text \<open>\<open>brk_ok h\<close>: the break lies between its bounds, the data segment does not start at
  address 0, and it ends in the lower half of the address space.\<close>

definition brk_ok :: "heap \<Rightarrow> bool" where
  "brk_ok h \<longleftrightarrow>
     0 < unat (brk_min h) \<and> unat (brk_min h) \<le> unat (brk h) \<and>
     unat (brk h) \<le> unat (brk_max h) \<and> unat (brk_max h) + unat BLOCK_SIZE \<le> 2 ^ 63"

text \<open>\<open>layout h lo bs\<close>: the blocks \<open>bs\<close>, each with its metadata and its recorded
  payload, lie one after the other at or above \<open>lo\<close> and end at or below the break.\<close>

fun layout :: "heap \<Rightarrow> nat \<Rightarrow> addr list \<Rightarrow> bool" where
  "layout h lo [] = (lo \<le> unat (brk h))"
| "layout h lo (b # bs) =
     (lo \<le> unat b \<and>
      layout h (unat b + unat BLOCK_SIZE + unat (size_blk (blocks h b))) bs)"

text \<open>\<open>heap_inv h bs\<close>: the list from \<^verbatim>\<open>base\<close> is \<open>bs\<close> and its blocks are laid out
  inside the data segment.\<close>

definition heap_inv :: "heap \<Rightarrow> addr list \<Rightarrow> bool" where
  "heap_inv h bs \<longleftrightarrow>
     brk_ok h \<and> block_list h (base h) bs \<and> layout h (unat (brk_min h)) bs"

text \<open>The growth request for a payload of a given size is rejected when \<^verbatim>\<open>sbrk\<close>
  answers \<^verbatim>\<open>(void *) -1\<close> (line 63).\<close>

definition growth_rejected :: "size_t \<Rightarrow> heap \<Rightarrow> bool" where
  "growth_rejected sz h \<longleftrightarrow> fst (sbrk (sz + BLOCK_SIZE) h) = - 1"

text \<open>The state after a granted extension for a payload of \<open>sz\<close> bytes behind the
  predecessor \<open>l\<close> (lines 71-79): the break has moved, the predecessor (if any) links to
  the new block at the old break, and the new block is initialised.\<close>

definition extended :: "addr \<Rightarrow> size_t \<Rightarrow> heap \<Rightarrow> heap" where
  "extended l sz h =
     h\<lparr>brk := brk h + (sz + BLOCK_SIZE),
       blocks := (if l \<noteq> 0 then (blocks h)(l := (blocks h l)\<lparr>next_blk := brk h\<rparr>) else blocks h)
         (brk h := ((if l \<noteq> 0 then (blocks h)(l := (blocks h l)\<lparr>next_blk := brk h\<rparr>) else blocks h) (brk h))
            \<lparr>size_blk := sz, next_blk := 0, free := 0, debug_flag := 0x12345678\<rparr>)\<rparr>"

text \<open>The state after a free block \<open>b\<close> has been taken for reuse (lines 111-112).\<close>

definition reused :: "addr \<Rightarrow> heap \<Rightarrow> heap" where
  "reused b h = h\<lparr>blocks := (blocks h)(b := (blocks h b)\<lparr>free := 0, debug_flag := 0x77777777\<rparr>)\<rparr>"

text \<open>\<open>payload_granted h p n\<close>: the \<open>n\<close> bytes from the user pointer \<open>p\<close> on lie inside
  the data segment, behind room for one metadata record.\<close>

definition payload_granted :: "heap \<Rightarrow> addr \<Rightarrow> size_t \<Rightarrow> bool" where
  "payload_granted h p n \<longleftrightarrow>
     unat (brk_min h) + unat BLOCK_SIZE \<le> unat p \<and> unat p + unat n \<le> unat (brk h)"

text \<open>The state after a granted extension in \<^verbatim>\<open>allocate_memory\<close>, where \<open>bs\<close> is the
  block list before the call: the first block also becomes \<^verbatim>\<open>base\<close> (line 98),
  a later block is linked behind the tail (line 105).\<close>

definition grown :: "addr list \<Rightarrow> size_t \<Rightarrow> heap \<Rightarrow> heap" where
  "grown bs sz h =
     (if bs = [] then (extended 0 sz h)\<lparr>base := brk h\<rparr> else extended (last bs) sz h)"

text \<open>The state after a live pointer has been released (lines 143-144).\<close>

definition released :: "addr \<Rightarrow> heap \<Rightarrow> heap" where
  "released p h = h\<lparr>blocks := (blocks h)(retrieve_block_ptr p :=
     (blocks h (retrieve_block_ptr p))\<lparr>free := 1, debug_flag := 0x55555555\<rparr>)\<rparr>"

subsection \<open>Example states\<close>

text \<open>A fresh process: no block yet, the break at \<open>0x1000\<close>, growth granted up to
  \<open>0x1100\<close>.\<close>

definition heap0 :: heap where
  "heap0 = \<lparr>base = 0, brk = 0x1000, brk_min = 0x1000, brk_max = 0x1100,
            blocks = (\<lambda>a. \<lparr>size_blk = 0, next_blk = 0, free = 0, debug_flag = 0\<rparr>),
            bytes = (\<lambda>a. 0xAA)\<rparr>"

text \<open>Two blocks in use: 16 bytes at \<open>0x1000\<close> (payload from \<open>0x1018\<close>) and 8 bytes at
  \<open>0x1028\<close> (payload from \<open>0x1040\<close>); the break is at \<open>0x1048\<close>. Every byte holds the
  low eight bits of its own address.\<close>

definition heap2 :: heap where
  "heap2 = \<lparr>base = 0x1000, brk = 0x1048, brk_min = 0x1000, brk_max = 0x1100,
            blocks = (\<lambda>a. \<lparr>size_blk = 0, next_blk = 0, free = 0, debug_flag = 0\<rparr>)
              (0x1000 := \<lparr>size_blk = 16, next_blk = 0x1028, free = 0, debug_flag = 0x77777777\<rparr>,
               0x1028 := \<lparr>size_blk = 8, next_blk = 0, free = 0, debug_flag = 0x12345678\<rparr>),
            bytes = (\<lambda>a. ucast a)\<rparr>"

text \<open>The same two blocks after the first one has been released.\<close>

definition heap2f :: heap where
  "heap2f = \<lparr>base = 0x1000, brk = 0x1048, brk_min = 0x1000, brk_max = 0x1100,
            blocks = (\<lambda>a. \<lparr>size_blk = 0, next_blk = 0, free = 0, debug_flag = 0\<rparr>)
              (0x1000 := \<lparr>size_blk = 16, next_blk = 0x1028, free = 1, debug_flag = 0x55555555\<rparr>,
               0x1028 := \<lparr>size_blk = 8, next_blk = 0, free = 0, debug_flag = 0x12345678\<rparr>),
            bytes = (\<lambda>a. ucast a)\<rparr>"

text \<open>\<open>heap0\<close> after a request for \<open>2 ^ 64 - 24\<close> bytes: a block at \<open>0x1000\<close> while the
  break is still \<open>0x1000\<close>.\<close>

definition heap0_wrapped :: heap where
  "heap0_wrapped = \<lparr>base = 0x1000, brk = 0x1000, brk_min = 0x1000, brk_max = 0x1100,
            blocks = (\<lambda>a. \<lparr>size_blk = 0, next_blk = 0, free = 0, debug_flag = 0\<rparr>)
              (0x1000 := \<lparr>size_blk = 0xFFFFFFFFFFFFFFE8, next_blk = 0, free = 0,
                           debug_flag = 0x12345678\<rparr>),
            bytes = (\<lambda>a. 0xAA)\<rparr>"

text \<open>\<open>heap2f\<close> after \<^verbatim>\<open>zero_allocate\<close> has taken the free first block and zeroed
  its first two bytes.\<close>

definition heap2f_two_zeroed :: heap where
  "heap2f_two_zeroed = \<lparr>base = 0x1000, brk = 0x1048, brk_min = 0x1000, brk_max = 0x1100,
            blocks = (\<lambda>a. \<lparr>size_blk = 0, next_blk = 0, free = 0, debug_flag = 0\<rparr>)
              (0x1000 := \<lparr>size_blk = 16, next_blk = 0x1028, free = 0, debug_flag = 0x77777777\<rparr>,
               0x1028 := \<lparr>size_blk = 8, next_blk = 0, free = 0, debug_flag = 0x12345678\<rparr>),
            bytes = (\<lambda>a. if a - 0x1018 < 2 then 0 else ucast a)\<rparr>"

text \<open>\<open>heap0\<close> after requests for 16 bytes, 8 bytes and \<open>2 ^ 64 - 56\<close> bytes. The increment
  of the third request is \<open>-32\<close>, so the break has moved back from \<open>0x1048\<close> to \<open>0x1028\<close>,
  the address of the second block, whose pointer \<open>0x1040\<close> is still live.\<close>

definition heap_shrunk :: heap where
  "heap_shrunk = \<lparr>base = 0x1000, brk = 0x1028, brk_min = 0x1000, brk_max = 0x1100,
     blocks = (\<lambda>a. \<lparr>size_blk = 0, next_blk = 0, free = 0, debug_flag = 0\<rparr>)
       (0x1000 := \<lparr>size_blk = 16, next_blk = 0x1028, free = 0, debug_flag = 0x12345678\<rparr>,
        0x1028 := \<lparr>size_blk = 8, next_blk = 0x1048, free = 0, debug_flag = 0x12345678\<rparr>,
        0x1048 := \<lparr>size_blk = 0xFFFFFFFFFFFFFFC8, next_blk = 0, free = 0,
                     debug_flag = 0x12345678\<rparr>),
     bytes = (\<lambda>a. 0xAA)\<rparr>"

text \<open>\<open>heap_shrunk\<close> after an extension for 17 bytes: the new block is placed at the break
  \<open>0x1028\<close>, on top of the second block.\<close>

definition heap_shrunk_grown :: heap where
  "heap_shrunk_grown = \<lparr>base = 0x1000, brk = 0x1051, brk_min = 0x1000, brk_max = 0x1100,
     blocks = (\<lambda>a. \<lparr>size_blk = 0, next_blk = 0, free = 0, debug_flag = 0\<rparr>)
       (0x1000 := \<lparr>size_blk = 16, next_blk = 0x1028, free = 0, debug_flag = 0x12345678\<rparr>,
        0x1028 := \<lparr>size_blk = 17, next_blk = 0, free = 0, debug_flag = 0x12345678\<rparr>,
        0x1048 := \<lparr>size_blk = 0xFFFFFFFFFFFFFFC8, next_blk = 0x1028, free = 0,
                     debug_flag = 0x12345678\<rparr>),
     bytes = (\<lambda>a. 0xAA)\<rparr>"

text \<open>The same state after the block at \<open>0x1028\<close> has been released.\<close>

definition heap_shrunk_moved :: heap where
  "heap_shrunk_moved = \<lparr>base = 0x1000, brk = 0x1051, brk_min = 0x1000, brk_max = 0x1100,
     blocks = (\<lambda>a. \<lparr>size_blk = 0, next_blk = 0, free = 0, debug_flag = 0\<rparr>)
       (0x1000 := \<lparr>size_blk = 16, next_blk = 0x1028, free = 0, debug_flag = 0x12345678\<rparr>,
        0x1028 := \<lparr>size_blk = 17, next_blk = 0, free = 1, debug_flag = 0x55555555\<rparr>,
        0x1048 := \<lparr>size_blk = 0xFFFFFFFFFFFFFFC8, next_blk = 0x1028, free = 0,
                     debug_flag = 0x12345678\<rparr>),
     bytes = (\<lambda>a. 0xAA)\<rparr>"

section \<open>Properties\<close>

subsection \<open>Growing the data segment\<close>

lemma sbrk_eq:
  "sbrk n h =
     (if uint (brk h) + sint n < uint (brk_min h) \<or> uint (brk_max h) < uint (brk h) + sint n
      then (- 1, h) else (brk h, h\<lparr>brk := brk h + n\<rparr>))"
  by (simp add: sbrk_def Let_def)

lemma brk_ok_bounds:
  assumes "brk_ok h"
  shows "brk h \<noteq> - 1" "brk h \<noteq> 0" "unat (brk h) + 24 \<le> 2 ^ 63"
    "uint (brk_min h) \<le> uint (brk h)" "uint (brk h) \<le> uint (brk_max h)"
proof -
  from assms have b: "0 < unat (brk h)" "unat (brk h) + 24 \<le> 2 ^ 63"
    "unat (brk_min h) \<le> unat (brk h)" "unat (brk h) \<le> unat (brk_max h)"
    by (simp_all add: brk_ok_def BLOCK_SIZE_def)
  show "brk h \<noteq> 0" using b(1) by (auto simp: unat_eq_0)
  show "brk h \<noteq> - 1"
  proof
    assume "brk h = - 1"
    then have "unat (brk h) = 2 ^ 64 - 1" by (simp add: unsigned_minus_1_eq_mask mask_eq_exp_minus_1)
    with b(2) show False by simp
  qed
  show "unat (brk h) + 24 \<le> 2 ^ 63" by (rule b(2))
  show "uint (brk_min h) \<le> uint (brk h)" using b(3) by (simp add: word_le_def[symmetric] word_le_nat_alt)
  show "uint (brk h) \<le> uint (brk_max h)" using b(4) by (simp add: word_le_def[symmetric] word_le_nat_alt)
qed

lemma sbrk_zero: "brk_ok h \<Longrightarrow> sbrk 0 h = (brk h, h)"
  using brk_ok_bounds(4,5) [of h] by (simp add: sbrk_eq)

lemma growth_rejected_iff:
  "brk_ok h \<Longrightarrow> growth_rejected sz h \<longleftrightarrow>
     uint (brk h) + sint (sz + BLOCK_SIZE) < uint (brk_min h) \<or>
     uint (brk_max h) < uint (brk h) + sint (sz + BLOCK_SIZE)"
  by (simp add: growth_rejected_def sbrk_eq brk_ok_bounds)

lemma sbrk_growth:
  "brk_ok h \<Longrightarrow> sbrk (sz + BLOCK_SIZE) h =
     (if growth_rejected sz h then (- 1, h) else (brk h, h\<lparr>brk := brk h + (sz + BLOCK_SIZE)\<rparr>))"
  by (simp add: growth_rejected_iff) (simp add: sbrk_eq)

lemma extend_memory_eq:
  "brk_ok h \<Longrightarrow> extend_memory l sz h =
     (if growth_rejected sz h then Return (0, h) else Return (brk h, extended l sz h))"
  by (simp add: extend_memory_def sbrk_zero sbrk_growth brk_ok_bounds extended_def Let_def)


subsection \<open>Lists and layout\<close>

lemma layout_start: "layout h lo bs \<Longrightarrow> lo \<le> unat (brk h)"
proof (induction bs arbitrary: lo)
  case Nil
  then show ?case by simp
next
  case (Cons b bs)
  then have "lo \<le> unat b"
    and "unat b + unat BLOCK_SIZE + unat (size_blk (blocks h b)) \<le> unat (brk h)"
    by simp_all
  then show ?case by linarith
qed

lemma layout_lower: "layout h lo bs \<Longrightarrow> b \<in> set bs \<Longrightarrow> lo \<le> unat b"
proof (induction bs arbitrary: lo)
  case Nil
  then show ?case by simp
next
  case (Cons c cs)
  show ?case
  proof (cases "b = c")
    case True
    with Cons.prems show ?thesis by simp
  next
    case False
    with Cons.prems have "b \<in> set cs"
      and "layout h (unat c + unat BLOCK_SIZE + unat (size_blk (blocks h c))) cs"
      and "lo \<le> unat c" by simp_all
    with Cons.IH show ?thesis by fastforce
  qed
qed

lemma layout_upper:
  "layout h lo bs \<Longrightarrow> b \<in> set bs \<Longrightarrow>
   unat b + unat BLOCK_SIZE + unat (size_blk (blocks h b)) \<le> unat (brk h)"
  by (induction bs arbitrary: lo) (auto dest: layout_start)

lemma layout_after:
  "layout h lo (b # bs) \<Longrightarrow> c \<in> set bs \<Longrightarrow>
   unat b + unat BLOCK_SIZE + unat (size_blk (blocks h b)) \<le> unat c"
  by (auto dest: layout_lower)

lemma layout_distinct: "layout h lo bs \<Longrightarrow> distinct bs"
proof (induction bs arbitrary: lo)
  case Nil
  then show ?case by simp
next
  case (Cons b bs)
  have "b \<notin> set bs"
  proof
    assume "b \<in> set bs"
    from layout_after [OF Cons.prems this] show False by (simp add: BLOCK_SIZE_def)
  qed
  with Cons show ?case by auto
qed

lemma layout_separate:
  "layout h lo bs \<Longrightarrow> b \<in> set bs \<Longrightarrow> c \<in> set bs \<Longrightarrow> b \<noteq> c \<Longrightarrow>
   unat b + unat BLOCK_SIZE + unat (size_blk (blocks h b)) \<le> unat c \<or>
   unat c + unat BLOCK_SIZE + unat (size_blk (blocks h c)) \<le> unat b"
proof (induction bs arbitrary: lo)
  case Nil
  then show ?case by simp
next
  case (Cons a as)
  show ?case
  proof (cases "b = a \<or> c = a")
    case True
    with Cons.prems layout_after [OF Cons.prems(1)] show ?thesis by auto
  next
    case False
    with Cons.prems Cons.IH [of "unat a + unat BLOCK_SIZE + unat (size_blk (blocks h a))"]
    show ?thesis by simp
  qed
qed

lemma layout_cong:
  "brk h' = brk h \<Longrightarrow> \<forall>b\<in>set bs. size_blk (blocks h' b) = size_blk (blocks h b) \<Longrightarrow>
   layout h' lo bs = layout h lo bs"
  by (induction bs arbitrary: lo) simp_all

lemma block_list_cong:
  "\<forall>b\<in>set bs. next_blk (blocks h' b) = next_blk (blocks h b) \<Longrightarrow>
   block_list h' p bs = block_list h p bs"
  by (induction bs arbitrary: p) auto

lemma block_list_snoc:
  assumes "block_list h p bs" "bs \<noteq> []" "distinct bs" "x \<notin> set bs" "x \<noteq> 0"
    and "next_blk (blocks h' (last bs)) = x" "next_blk (blocks h' x) = 0"
    and "\<forall>b\<in>set bs. b \<noteq> last bs \<longrightarrow> next_blk (blocks h' b) = next_blk (blocks h b)"
  shows "block_list h' p (bs @ [x])"
  using assms
proof (induction bs arbitrary: p)
  case Nil
  then show ?case by simp
next
  case (Cons b bs)
  show ?case
  proof (cases "bs = []")
    case True
    with Cons.prems show ?thesis by simp
  next
    case False
    with Cons.prems have "b \<noteq> last bs" by auto
    with Cons.prems False have nb: "next_blk (blocks h' b) = next_blk (blocks h b)" by simp
    have "block_list h' (next_blk (blocks h b)) (bs @ [x])"
      using Cons.prems False by (intro Cons.IH) auto
    with Cons.prems nb show ?thesis by simp
  qed
qed

lemma layout_snoc:
  assumes "layout h lo bs" "x \<notin> set bs" "unat (brk h) \<le> unat x"
    and "unat x + unat BLOCK_SIZE + unat (size_blk (blocks h' x)) \<le> unat (brk h')"
    and "\<forall>b\<in>set bs. size_blk (blocks h' b) = size_blk (blocks h b)"
  shows "layout h' lo (bs @ [x])"
  using assms
proof (induction bs arbitrary: lo)
  case Nil
  then show ?case by simp
next
  case (Cons b bs)
  then show ?case by simp
qed

subsection \<open>The scan for a free block\<close>

lemma locate_loop_block_list:
  "block_list h cur bs \<Longrightarrow>
   locate_loop h sz cur l =
     Some (case find (fits h sz) bs of Some b \<Rightarrow> b | None \<Rightarrow> 0,
           last (l # takeWhile (\<lambda>b. \<not> fits h sz b) bs))"
proof (induction bs arbitrary: cur l)
  case Nil
  then show ?case by (subst locate_loop.simps) simp
next
  case (Cons b bs)
  then have cur: "cur = b" "b \<noteq> 0" and rest: "block_list h (next_blk (blocks h b)) bs"
    by simp_all
  show ?case
  proof (cases "fits h sz b")
    case True
    then show ?thesis
      unfolding cur by (subst locate_loop.simps) (simp add: fits_def)
  next
    case False
    have "locate_loop h sz b l = locate_loop h sz (next_blk (blocks h b)) b"
      using False cur(2) by (subst locate_loop.simps) (simp add: fits_def)
    then show ?thesis
      unfolding cur using Cons.IH [OF rest, of b] False by simp
  qed
qed

lemma find_in_block_list_nonzero:
  "block_list h p bs \<Longrightarrow> find P bs = Some b \<Longrightarrow> b \<noteq> 0"
  by (induction bs arbitrary: p) (auto split: if_splits)

lemma block_list_nonzero: "block_list h p bs \<Longrightarrow> b \<in> set bs \<Longrightarrow> b \<noteq> 0"
  by (induction bs arbitrary: p) auto

text \<open>
  Claim C1. When the blocks reachable from \<^verbatim>\<open>base\<close> are the list \<open>bs\<close>, the scan
  returns, for every requested size: its result is the first block of \<open>bs\<close> that is free
  and records a size of at least the request, or null when no block qualifies; the final
  \<^verbatim>\<open>*last\<close> is the last block the scan stepped over; and when the result is null and
  the list is not empty, that is the final block of the list. (For the empty list nothing
  is visited and \<^verbatim>\<open>*last\<close> keeps the caller's value.)
\<close>

theorem locate_free_block_first_fit:
  assumes "block_list h (base h) bs"
  shows "\<exists>found l'. locate_free_block l sz h = Some (found, l') \<and>
           found = (case find (fits h sz) bs of Some b \<Rightarrow> b | None \<Rightarrow> 0) \<and>
           (found = 0 \<longleftrightarrow> find (fits h sz) bs = None) \<and>
           l' = last (l # takeWhile (\<lambda>b. \<not> fits h sz b) bs) \<and>
           (found = 0 \<and> bs \<noteq> [] \<longrightarrow> l' = last bs) \<and>
           (bs = [] \<longrightarrow> l' = l)"
proof -
  have run: "locate_free_block l sz h =
      Some (case find (fits h sz) bs of Some b \<Rightarrow> b | None \<Rightarrow> 0,
            last (l # takeWhile (\<lambda>b. \<not> fits h sz b) bs))"
    unfolding locate_free_block_def by (rule locate_loop_block_list [OF assms])
  have zero: "(case find (fits h sz) bs of Some b \<Rightarrow> b | None \<Rightarrow> 0) = 0
      \<longleftrightarrow> find (fits h sz) bs = None"
    using find_in_block_list_nonzero [OF assms] by (auto split: option.splits)
  have tail: "last (l # takeWhile (\<lambda>b. \<not> fits h sz b) bs) = last bs"
    if "find (fits h sz) bs = None" "bs \<noteq> []"
  proof -
    from that(1) have all: "takeWhile (\<lambda>b. \<not> fits h sz b) bs = bs"
      by (simp add: find_None_iff takeWhile_eq_all_conv)
    show ?thesis unfolding all using that(2) by simp
  qed
  show ?thesis
    using run zero tail by auto
qed

text \<open>In \<open>heap2f\<close> the free first block is found for 10 bytes; for 17 bytes nothing fits
  and the tail \<open>0x1028\<close> is reported.\<close>

theorem locate_free_block_first_fit_witness:
  "block_list heap2f (base heap2f) [0x1000, 0x1028] \<and>
   locate_free_block 0x1000 10 heap2f = Some (0x1000, 0x1000) \<and>
   locate_free_block 0x1000 17 heap2f = Some (0, 0x1028)"
  using locate_free_block_first_fit [of heap2f "[0x1000, 0x1028]" "0x1000" 10]
    locate_free_block_first_fit [of heap2f "[0x1000, 0x1028]" "0x1000" 17]
  by (simp add: heap2f_def fits_def)

subsection \<open>The allocator, case by case\<close>

lemma locate_free_block_eq:
  "block_list h (base h) bs \<Longrightarrow>
   locate_free_block l sz h =
     Some (case find (fits h sz) bs of Some b \<Rightarrow> b | None \<Rightarrow> 0,
           last (l # takeWhile (\<lambda>b. \<not> fits h sz b) bs))"
  unfolding locate_free_block_def by (rule locate_loop_block_list)

lemma allocate_memory_zero: "allocate_memory 0 h = Some (Return (0, h))"
  by (simp add: allocate_memory_def)

lemma allocate_memory_first:
  assumes "brk_ok h" "base h = 0" "sz \<noteq> 0"
  shows "allocate_memory sz h =
     Some (Return (if growth_rejected sz h then (0, h)
                   else (brk h + BLOCK_SIZE, (extended 0 sz h)\<lparr>base := brk h\<rparr>)))"
  using assms by (simp add: allocate_memory_def extend_memory_eq brk_ok_bounds)

lemma allocate_memory_reuse:
  assumes "block_list h (base h) bs" "find (fits h sz) bs = Some b" "sz \<noteq> 0"
  shows "allocate_memory sz h = Some (Return (b + BLOCK_SIZE, reused b h))"
proof -
  from assms(1,2) have nz: "b \<noteq> 0" by (rule find_in_block_list_nonzero)
  from assms(2) have "bs \<noteq> []" by auto
  with assms(1) have "base h \<noteq> 0" by (cases bs) auto
  then show ?thesis
    using assms(2,3) nz
    by (simp add: allocate_memory_def locate_free_block_eq [OF assms(1)] reused_def)
qed

lemma allocate_memory_extend:
  assumes "brk_ok h" "block_list h (base h) bs" "bs \<noteq> []"
    "find (fits h sz) bs = None" "sz \<noteq> 0"
  shows "allocate_memory sz h =
     Some (Return (if growth_rejected sz h then (0, h)
                   else (brk h + BLOCK_SIZE, extended (last bs) sz h)))"
proof -
  from assms(2,3) have "base h \<noteq> 0" by (cases bs) auto
  moreover from assms(4) have all: "takeWhile (\<lambda>b. \<not> fits h sz b) bs = bs"
    by (simp add: find_None_iff takeWhile_eq_all_conv)
  have "locate_free_block (base h) sz h = Some (0, last bs)"
    by (simp only: locate_free_block_eq [OF assms(2)] assms(3,4) all option.case
        last.simps if_False)
  moreover have "last bs \<noteq> 0"
    using assms(2,3) by (intro block_list_nonzero [OF assms(2)]) simp
  ultimately show ?thesis
    using assms(1,5)
    by (simp add: allocate_memory_def extend_memory_eq brk_ok_bounds)
qed



lemma unat_plus_BLOCK_SIZE:
  "unat b + 24 < 2 ^ 64 \<Longrightarrow> unat (b + BLOCK_SIZE) = unat b + 24"
  for b :: "64 word"
  using unat_add_lem [of b "24 :: 64 word"] by (simp add: BLOCK_SIZE_def)

lemma sint_small:
  fixes w :: "64 word"
  assumes "unat w < 2 ^ 63"
  shows "sint w = int (unat w)"
proof -
  have "int (unat w) < 2 ^ 63"
    using assms by (metis of_nat_less_iff of_nat_numeral of_nat_power)
  then have "uint w < 2 ^ 63" by simp
  moreover have "- (2 ^ 63) \<le> uint w"
    by (rule order_trans [of _ 0]) simp_all
  ultimately have "signed_take_bit 63 (uint w) = uint w"
    by (rule signed_take_bit_int_eq_self [rotated])
  then show ?thesis by (simp add: sint_uint)
qed

lemma growth_granted_brk:
  assumes "brk_ok h" "\<not> growth_rejected sz h" "unat sz + unat BLOCK_SIZE < 2 ^ 63"
  shows "unat (brk h + (sz + BLOCK_SIZE)) = unat (brk h) + unat sz + 24"
    and "unat (brk h) + unat sz + 24 \<le> unat (brk_max h)"
proof -
  have small: "unat sz + 24 < 2 ^ 63"
    using assms(3) by (simp add: BLOCK_SIZE_def)
  then have "unat sz + 24 < 2 ^ 64" by simp
  then have s24: "unat (sz + BLOCK_SIZE) = unat sz + 24"
    by (rule unat_plus_BLOCK_SIZE)
  with small have "sint (sz + BLOCK_SIZE) = int (unat sz + 24)"
    by (simp only: sint_small)
  with assms(1,2) have "uint (brk h) + int (unat sz + 24) \<le> uint (brk_max h)"
    by (simp only: growth_rejected_iff) simp
  then have "int (unat (brk h)) + int (unat sz + 24) \<le> int (unat (brk_max h))"
    by simp
  then show le: "unat (brk h) + unat sz + 24 \<le> unat (brk_max h)"
    by linarith
  have "unat (brk_max h) < 2 ^ 64"
    using assms(1) by (simp add: brk_ok_def)
  with le have "unat (brk h) + unat (sz + BLOCK_SIZE) < 2 ^ LENGTH(64)"
    unfolding s24 by simp
  then have "unat (brk h + (sz + BLOCK_SIZE)) = unat (brk h) + unat (sz + BLOCK_SIZE)"
    by (simp only: unat_add_lem)
  then show "unat (brk h + (sz + BLOCK_SIZE)) = unat (brk h) + unat sz + 24"
    unfolding s24 by simp
qed


lemma retrieve_block_ptr_user [simp]: "retrieve_block_ptr (b + BLOCK_SIZE) = b"
  by (simp add: retrieve_block_ptr_def)

lemma heap_inv_block:
  assumes "heap_inv h bs" "b \<in> set bs"
  shows "unat (brk_min h) \<le> unat b"
    and "unat b + 24 + unat (size_blk (blocks h b)) \<le> unat (brk h)"
    and "unat (b + BLOCK_SIZE) = unat b + 24"
    and "b + BLOCK_SIZE \<noteq> 0"
proof -
  from assms have lay: "layout h (unat (brk_min h)) bs" and ok: "brk_ok h"
    by (simp_all add: heap_inv_def)
  show "unat (brk_min h) \<le> unat b"
    using lay assms(2) by (rule layout_lower)
  show up: "unat b + 24 + unat (size_blk (blocks h b)) \<le> unat (brk h)"
    using layout_upper [OF lay assms(2)] by (simp add: BLOCK_SIZE_def)
  have "unat (brk h) + 24 \<le> 2 ^ 63"
    using ok by (rule brk_ok_bounds)
  with up have "unat b + 24 < 2 ^ 64" by simp
  then show eq: "unat (b + BLOCK_SIZE) = unat b + 24"
    by (rule unat_plus_BLOCK_SIZE)
  show "b + BLOCK_SIZE \<noteq> 0"
  proof
    assume "b + BLOCK_SIZE = 0"
    with eq show False by simp
  qed
qed

lemma brk_user_pointer:
  assumes "brk_ok h"
  shows "unat (brk h + BLOCK_SIZE) = unat (brk h) + 24" and "brk h + BLOCK_SIZE \<noteq> 0"
proof -
  have "unat (brk h) + 24 \<le> 2 ^ 63"
    using assms by (rule brk_ok_bounds)
  then have "unat (brk h) + 24 < 2 ^ 64" by simp
  then show eq: "unat (brk h + BLOCK_SIZE) = unat (brk h) + 24"
    by (rule unat_plus_BLOCK_SIZE)
  show "brk h + BLOCK_SIZE \<noteq> 0"
  proof
    assume "brk h + BLOCK_SIZE = 0"
    with eq show False by simp
  qed
qed

lemma extended_fields [simp]:
  "brk (extended l sz h) = brk h + (sz + BLOCK_SIZE)"
  "base (extended l sz h) = base h"
  "brk_min (extended l sz h) = brk_min h"
  "brk_max (extended l sz h) = brk_max h"
  "bytes (extended l sz h) = bytes h"
  "blocks (extended l sz h) (brk h) =
     \<lparr>size_blk = sz, next_blk = 0, free = 0, debug_flag = 0x12345678\<rparr>"
  by (simp_all add: extended_def)

lemma extended_other:
  "a \<noteq> brk h \<Longrightarrow> blocks (extended l sz h) a =
     (if l \<noteq> 0 \<and> a = l then (blocks h a)\<lparr>next_blk := brk h\<rparr> else blocks h a)"
  by (simp add: extended_def)

lemma reused_fields [simp]:
  "brk (reused b h) = brk h"
  "base (reused b h) = base h"
  "brk_min (reused b h) = brk_min h"
  "brk_max (reused b h) = brk_max h"
  "bytes (reused b h) = bytes h"
  "blocks (reused b h) a =
     (if a = b then (blocks h b)\<lparr>free := 0, debug_flag := 0x77777777\<rparr> else blocks h a)"
  by (simp_all add: reused_def)


lemma heap_inv_reused: "heap_inv h bs \<Longrightarrow> heap_inv (reused b h) bs"
proof -
  assume inv: "heap_inv h bs"
  have "block_list (reused b h) (base h) bs = block_list h (base h) bs"
    by (rule block_list_cong) simp
  moreover have "layout (reused b h) (unat (brk_min h)) bs = layout h (unat (brk_min h)) bs"
    by (rule layout_cong) simp_all
  ultimately show ?thesis
    using inv by (simp add: heap_inv_def brk_ok_def)
qed

lemma heap_inv_not_brk:
  assumes "heap_inv h bs" "b \<in> set bs"
  shows "b \<noteq> brk h"
  using heap_inv_block(2) [OF assms] by auto

lemma heap_inv_extended:
  assumes inv: "heap_inv h bs" and granted: "\<not> growth_rejected sz h"
    and small: "unat sz + unat BLOCK_SIZE < 2 ^ 63" and ne: "bs \<noteq> []"
  shows "heap_inv (extended (last bs) sz h) (bs @ [brk h])"
proof -
  let ?h' = "extended (last bs) sz h"
  from inv have ok: "brk_ok h" and bl: "block_list h (base h) bs"
    and lay: "layout h (unat (brk_min h)) bs"
    by (simp_all add: heap_inv_def)
  have new_brk: "unat (brk ?h') = unat (brk h) + unat sz + 24"
    "unat (brk h) + unat sz + 24 \<le> unat (brk_max h)"
    using growth_granted_brk [OF ok granted small] by simp_all
  have fresh: "brk h \<notin> set bs"
    using heap_inv_not_brk [OF inv] by blast
  have old: "b \<noteq> brk h" if "b \<in> set bs" for b
    using that fresh by auto
  have last_in: "last bs \<in> set bs" using ne by simp
  then have last_nz: "last bs \<noteq> 0" and last_old: "last bs \<noteq> brk h"
    using block_list_nonzero [OF bl] fresh by auto
  have "brk_ok ?h'"
    using ok new_brk by (simp add: brk_ok_def)
  moreover have "block_list ?h' (base h) (bs @ [brk h])"
  proof (rule block_list_snoc [OF bl ne])
    show "distinct bs" using lay by (rule layout_distinct)
    show "brk h \<notin> set bs" by (rule fresh)
    show "brk h \<noteq> 0" using ok by (rule brk_ok_bounds)
    show "next_blk (blocks ?h' (last bs)) = brk h"
      using last_nz last_old by (simp add: extended_other)
    show "next_blk (blocks ?h' (brk h)) = 0" by simp
    show "\<forall>b\<in>set bs. b \<noteq> last bs \<longrightarrow> next_blk (blocks ?h' b) = next_blk (blocks h b)"
      by (simp add: extended_other old)
  qed
  moreover have "layout ?h' (unat (brk_min h)) (bs @ [brk h])"
  proof (rule layout_snoc [OF lay fresh])
    show "unat (brk h) \<le> unat (brk h)" by simp
    show "unat (brk h) + unat BLOCK_SIZE + unat (size_blk (blocks ?h' (brk h))) \<le> unat (brk ?h')"
      using new_brk(1) by (simp add: BLOCK_SIZE_def)
    show "\<forall>b\<in>set bs. size_blk (blocks ?h' b) = size_blk (blocks h b)"
      by (simp add: extended_other old)
  qed
  ultimately show ?thesis by (simp add: heap_inv_def)
qed

lemma heap_inv_first:
  assumes inv: "heap_inv h []" and granted: "\<not> growth_rejected sz h"
    and small: "unat sz + unat BLOCK_SIZE < 2 ^ 63"
  shows "heap_inv ((extended 0 sz h)\<lparr>base := brk h\<rparr>) [brk h]"
proof -
  from inv have ok: "brk_ok h" by (simp add: heap_inv_def)
  have new_brk: "unat (brk (extended 0 sz h)) = unat (brk h) + unat sz + 24"
    "unat (brk h) + unat sz + 24 \<le> unat (brk_max h)"
    using growth_granted_brk [OF ok granted small] by simp_all
  have "brk h \<noteq> 0" using ok by (rule brk_ok_bounds)
  then show ?thesis
    using ok new_brk by (simp add: heap_inv_def brk_ok_def BLOCK_SIZE_def)
qed

lemma unat_BLOCK_SIZE: "unat BLOCK_SIZE = 24"
  by (simp add: BLOCK_SIZE_def)

lemma find_SomeD: "find P xs = Some x \<Longrightarrow> x \<in> set xs \<and> P x"
  by (induction xs) (auto split: if_splits)

subsection \<open>What the allocator returns\<close>

text \<open>
  Claim C2, as the code has it. In a well-formed heap \<^verbatim>\<open>allocate_memory\<close> returns (the
  scan ends and no assertion fails), and the result is null exactly when the size is zero,
  or no free block fits and the growth request is rejected. A non-null result is the
  address 24 bytes past the block that was taken (the first fitting free block, else the
  new block at the old break), and that block records a size of at least the request.
  When a free block was reused, or when the request plus the metadata size is below
  \<open>2 ^ 63\<close> (so that the increment passed to \<^verbatim>\<open>sbrk\<close> neither wraps nor is negative),
  the requested bytes lie inside the data segment.
\<close>

theorem allocate_memory_result:
  assumes inv: "heap_inv h bs"
  shows "\<exists>p h'. allocate_memory sz h = Some (Return (p, h')) \<and>
      (p = 0 \<longleftrightarrow> sz = 0 \<or> (find (fits h sz) bs = None \<and> growth_rejected sz h)) \<and>
      (p \<noteq> 0 \<longrightarrow>
         retrieve_block_ptr p = (case find (fits h sz) bs of Some b \<Rightarrow> b | None \<Rightarrow> brk h) \<and>
         unat p = unat (retrieve_block_ptr p) + unat BLOCK_SIZE \<and>
         sz \<le> size_blk (blocks h' (retrieve_block_ptr p))) \<and>
      (p \<noteq> 0 \<and> (find (fits h sz) bs \<noteq> None \<or> unat sz + unat BLOCK_SIZE < 2 ^ 63) \<longrightarrow>
         payload_granted h' p sz)"
proof -
  from inv have ok: "brk_ok h" and bl: "block_list h (base h) bs"
    by (simp_all add: heap_inv_def)
  consider (zero) "sz = 0"
    | (reuse) b where "sz \<noteq> 0" "find (fits h sz) bs = Some b"
    | (rejected) "sz \<noteq> 0" "find (fits h sz) bs = None" "growth_rejected sz h"
    | (grown) "sz \<noteq> 0" "find (fits h sz) bs = None" "\<not> growth_rejected sz h"
    by (cases "find (fits h sz) bs") auto
  then show ?thesis
  proof cases
    case zero
    then show ?thesis by (simp add: allocate_memory_zero)
  next
    case reuse
    from find_SomeD [OF reuse(2)] have mem: "b \<in> set bs" and fit: "fits h sz b" by simp_all
    note blk = heap_inv_block [OF inv mem]
    have run: "allocate_memory sz h = Some (Return (b + BLOCK_SIZE, reused b h))"
      using bl reuse(2,1) by (rule allocate_memory_reuse)
    have "unat (size_blk (blocks h b)) \<ge> unat sz"
      using fit by (simp add: fits_def word_le_nat_alt)
    with blk have "payload_granted (reused b h) (b + BLOCK_SIZE) sz"
      by (simp add: payload_granted_def unat_BLOCK_SIZE)
    moreover have "sz \<le> size_blk (blocks (reused b h) b)"
      using fit by (simp add: fits_def)
    ultimately show ?thesis
      using run reuse blk(3,4) by (simp add: unat_BLOCK_SIZE)
  next
    case rejected
    have "allocate_memory sz h = Some (Return (0, h))"
    proof (cases "bs = []")
      case True
      with bl have "base h = 0" by simp
      with ok rejected show ?thesis by (simp add: allocate_memory_first)
    next
      case False
      with ok bl rejected show ?thesis by (simp add: allocate_memory_extend)
    qed
    with rejected show ?thesis by simp
  next
    case grown
    note usr = brk_user_pointer [OF ok]
    have granted: "payload_granted h' (brk h + BLOCK_SIZE) sz"
      if "unat sz + unat BLOCK_SIZE < 2 ^ 63" "brk h' = brk h + (sz + BLOCK_SIZE)"
         "brk_min h' = brk_min h" for h'
    proof -
      have "unat (brk h') = unat (brk h) + unat sz + 24"
        using growth_granted_brk(1) [OF ok grown(3) that(1)] that(2) by simp
      moreover have "unat (brk_min h) \<le> unat (brk h)"
        using ok by (simp add: brk_ok_def)
      ultimately show ?thesis
        using usr(1) that(3) by (simp add: payload_granted_def unat_BLOCK_SIZE)
    qed
    show ?thesis
    proof (cases "bs = []")
      case True
      with bl have "base h = 0" by simp
      with ok grown have run: "allocate_memory sz h =
          Some (Return (brk h + BLOCK_SIZE, (extended 0 sz h)\<lparr>base := brk h\<rparr>))"
        by (simp add: allocate_memory_first)
      show ?thesis
        using run grown usr granted [of "(extended 0 sz h)\<lparr>base := brk h\<rparr>"]
        by (simp add: unat_BLOCK_SIZE)
    next
      case False
      with ok bl grown have run: "allocate_memory sz h =
          Some (Return (brk h + BLOCK_SIZE, extended (last bs) sz h))"
        by (simp add: allocate_memory_extend)
      show ?thesis
        using run grown usr granted [of "extended (last bs) sz h"]
        by (simp add: unat_BLOCK_SIZE)
    qed
  qed
qed

text \<open>Reuse of the free 16-byte block of \<open>heap2f\<close> for 10 bytes, and growth of \<open>heap2\<close>
  by a new block for 8 bytes.\<close>

theorem allocate_memory_result_witness:
  "heap_inv heap2f [0x1000, 0x1028] \<and> heap_inv heap2 [0x1000, 0x1028] \<and>
   (\<exists>p h'. allocate_memory 10 heap2f = Some (Return (p, h')) \<and> p \<noteq> 0 \<and>
      retrieve_block_ptr p = 0x1000 \<and> payload_granted h' p 10) \<and>
   (\<exists>p h'. allocate_memory 8 heap2 = Some (Return (p, h')) \<and> p \<noteq> 0 \<and>
      retrieve_block_ptr p = 0x1048 \<and> payload_granted h' p 8)"
proof -
  have inv_f: "heap_inv heap2f [0x1000, 0x1028]"
    by (simp add: heap_inv_def brk_ok_def heap2f_def BLOCK_SIZE_def)
  have inv: "heap_inv heap2 [0x1000, 0x1028]"
    by (simp add: heap_inv_def brk_ok_def heap2_def BLOCK_SIZE_def)
  have fit_f: "find (fits heap2f 10) [0x1000, 0x1028] = Some 0x1000"
    by (simp add: fits_def heap2f_def)
  have fit: "find (fits heap2 8) [0x1000, 0x1028] = None"
    by (simp add: fits_def heap2_def)
  have granted: "\<not> growth_rejected 8 heap2"
    by (simp add: growth_rejected_def sbrk_def heap2_def BLOCK_SIZE_def Let_def)
  have small: "unat (8 :: size_t) + unat BLOCK_SIZE < 2 ^ 63"
    by (simp add: BLOCK_SIZE_def)
  have at_brk: "brk heap2 = 0x1048" by (simp add: heap2_def)
  from allocate_memory_result [OF inv_f, of 10] fit_f
  have "\<exists>p h'. allocate_memory 10 heap2f = Some (Return (p, h')) \<and> p \<noteq> 0 \<and>
      retrieve_block_ptr p = 0x1000 \<and> payload_granted h' p 10"
    by auto
  moreover from allocate_memory_result [OF inv, of 8] fit granted small at_brk
  have "\<exists>p h'. allocate_memory 8 heap2 = Some (Return (p, h')) \<and> p \<noteq> 0 \<and>
      retrieve_block_ptr p = 0x1048 \<and> payload_granted h' p 8"
    by auto
  ultimately show ?thesis using inv_f inv by blast
qed

text \<open>
  Claim C2 as stated fails where the increment wraps. In the fresh state \<open>heap0\<close> a
  request for \<open>2 ^ 64 - 24\<close> bytes makes \<^verbatim>\<open>size + BLOCK_SIZE\<close> equal to 0; \<^verbatim>\<open>sbrk(0)\<close>
  succeeds without moving the break, and the allocator returns \<open>0x1018\<close>, an address
  above the unchanged break at \<open>0x1000\<close>: not even one byte of the promised payload lies
  inside the data segment.
\<close>

theorem allocate_memory_wrap_counterexample:
  "heap_inv heap0 [] \<and> (0xFFFFFFFFFFFFFFE8 :: size_t) \<noteq> 0 \<and>
   \<not> growth_rejected 0xFFFFFFFFFFFFFFE8 heap0 \<and>
   allocate_memory 0xFFFFFFFFFFFFFFE8 heap0 = Some (Return (0x1018, heap0_wrapped)) \<and>
   brk heap0_wrapped = brk heap0 \<and>
   \<not> payload_granted heap0_wrapped 0x1018 0xFFFFFFFFFFFFFFE8 \<and>
   \<not> payload_granted heap0_wrapped 0x1018 1"
  by (simp add: heap_inv_def brk_ok_def heap0_def heap0_wrapped_def growth_rejected_def
      sbrk_def allocate_memory_def extend_memory_def payload_granted_def BLOCK_SIZE_def Let_def)

text \<open>The break has not moved, so the very next request is served at the same address
  although the first pointer was never released.\<close>

lemma allocate_memory_wrap_aliases:
  "\<exists>h'. allocate_memory 8 heap0_wrapped = Some (Return (0x1018, h'))"
  by (simp add: heap0_wrapped_def allocate_memory_def locate_free_block_def locate_loop.simps
      extend_memory_def sbrk_def BLOCK_SIZE_def Let_def)

subsection \<open>Outcomes of the allocator and effects on live pointers\<close>

lemma grown_fields [simp]:
  "brk (grown bs sz h) = brk h + (sz + BLOCK_SIZE)"
  "brk_min (grown bs sz h) = brk_min h"
  "brk_max (grown bs sz h) = brk_max h"
  "bytes (grown bs sz h) = bytes h"
  "blocks (grown bs sz h) (brk h) =
     \<lparr>size_blk = sz, next_blk = 0, free = 0, debug_flag = 0x12345678\<rparr>"
  by (simp_all add: grown_def)

lemma grown_other:
  "a \<noteq> brk h \<Longrightarrow> free (blocks (grown bs sz h) a) = free (blocks h a) \<and>
     debug_flag (blocks (grown bs sz h) a) = debug_flag (blocks h a) \<and>
     size_blk (blocks (grown bs sz h) a) = size_blk (blocks h a)"
  by (simp add: grown_def extended_other)

lemma allocate_memory_outcome [consumes 2, case_names null reuse grow]:
  assumes "brk_ok h" "block_list h (base h) bs"
  obtains
    (null) "allocate_memory sz h = Some (Return (0, h))"
      "sz = 0 \<or> (find (fits h sz) bs = None \<and> growth_rejected sz h)"
  | (reuse) b where "sz \<noteq> 0" "find (fits h sz) bs = Some b"
      "allocate_memory sz h = Some (Return (b + BLOCK_SIZE, reused b h))"
  | (grow) "sz \<noteq> 0" "find (fits h sz) bs = None" "\<not> growth_rejected sz h"
      "allocate_memory sz h = Some (Return (brk h + BLOCK_SIZE, grown bs sz h))"
proof (cases "sz = 0")
  case True
  then show ?thesis using null by (simp add: allocate_memory_zero)
next
  case nz: False
  show ?thesis
  proof (cases "find (fits h sz) bs")
    case (Some b)
    with nz assms(2) show ?thesis
      using reuse [of b] by (simp add: allocate_memory_reuse)
  next
    case None
    have run: "allocate_memory sz h =
      Some (Return (if growth_rejected sz h then (0, h)
                    else (brk h + BLOCK_SIZE, grown bs sz h)))"
    proof (cases "bs = []")
      case True
      with assms(2) have "base h = 0" by simp
      with assms(1) nz True show ?thesis
        by (simp add: allocate_memory_first grown_def)
    next
      case False
      with assms nz None show ?thesis
        by (simp add: allocate_memory_extend grown_def)
    qed
    show ?thesis
    proof (cases "growth_rejected sz h")
      case True
      with run None show ?thesis using null by simp
    next
      case False
      with run None nz show ?thesis using grow by simp
    qed
  qed
qed

lemma in_use_reused: "in_use h q \<Longrightarrow> in_use (reused b h) q"
  by (simp add: in_use_def)

lemma in_use_reused_new: "in_use (reused b h) (b + BLOCK_SIZE)"
  by (simp add: in_use_def)

lemma in_use_grown: "in_use h q \<Longrightarrow> in_use (grown bs sz h) q"
  by (cases "retrieve_block_ptr q = brk h") (simp_all add: in_use_def grown_other)

lemma in_use_grown_new: "in_use (grown bs sz h) (brk h + BLOCK_SIZE)"
  by (simp add: in_use_def)

lemma in_use_memset [simp]: "in_use (memset s c n h) q = in_use h q"
  by (simp add: in_use_def memset_def)

lemma in_use_memcpy [simp]: "in_use (memcpy d s n h) q = in_use h q"
  by (simp add: in_use_def memcpy_def)


lemma release_memory_base:
  "release_memory p h = Return h' \<Longrightarrow> base h' = base h"
  by (auto simp: release_memory_def Let_def split: if_splits)


lemma release_memory_live:
  "p \<noteq> 0 \<Longrightarrow> in_use h p \<Longrightarrow> release_memory p h = Return (released p h)"
  by (auto simp: release_memory_def in_use_def released_def Let_def)

lemma released_fields [simp]:
  "brk (released p h) = brk h"
  "base (released p h) = base h"
  "brk_min (released p h) = brk_min h"
  "brk_max (released p h) = brk_max h"
  "bytes (released p h) = bytes h"
  "blocks (released p h) a =
     (if a = retrieve_block_ptr p
      then (blocks h a)\<lparr>free := 1, debug_flag := 0x55555555\<rparr> else blocks h a)"
  by (simp_all add: released_def)

lemma retrieve_block_ptr_inj [simp]:
  "retrieve_block_ptr p = retrieve_block_ptr q \<longleftrightarrow> p = q"
  by (simp add: retrieve_block_ptr_def)

lemma user_pointer_of_block [simp]: "retrieve_block_ptr p + BLOCK_SIZE = p"
  by (simp add: retrieve_block_ptr_def)

lemma in_use_released: "in_use h q \<Longrightarrow> q \<noteq> p \<Longrightarrow> in_use (released p h) q"
  by (simp add: in_use_def)

lemma not_in_use_released: "\<not> in_use (released p h) p"
  by (simp add: in_use_def)


lemma memset_zeroed:
  assumes "i < unat n"
  shows "bytes (memset p c n h) (p + of_nat i) = c"
proof -
  have "unat (of_nat i :: 64 word) = i"
    using assms by (intro le_unat_uoi [of _ n]) simp
  with assms have "(of_nat i :: 64 word) < n" by (simp add: word_less_nat_alt)
  then show ?thesis by (simp add: memset_def)
qed

lemma memset_fields [simp]:
  "blocks (memset p c n h) = blocks h" "brk (memset p c n h) = brk h"
  "base (memset p c n h) = base h" "brk_min (memset p c n h) = brk_min h"
  "brk_max (memset p c n h) = brk_max h"
  by (simp_all add: memset_def)

subsection \<open>First-fit reuse after a release\<close>



subsection \<open>The zeroing allocator\<close>

text \<open>
  Claim C7, as the code has it. In a well-formed heap \<^verbatim>\<open>zero_allocate\<close> returns; when
  the result is not null, every byte at an offset below the total, which is the product of
  the two arguments modulo \<open>2 ^ 64\<close>, is zero, and the block behind the result records a
  size of at least that total.
\<close>

theorem zero_allocate_zeroed:
  assumes "heap_inv h bs"
  shows "\<exists>p h'. zero_allocate n k h = Some (Return (p, h')) \<and>
           (p \<noteq> 0 \<longrightarrow>
              (\<forall>i < unat (total_size n k). bytes h' (p + of_nat i) = 0) \<and>
              total_size n k \<le> size_blk (blocks h' (retrieve_block_ptr p)))"
proof -
  from assms have ok: "brk_ok h" and bl: "block_list h (base h) bs"
    by (simp_all add: heap_inv_def)
  let ?t = "total_size n k"
  from ok bl show ?thesis
  proof (cases rule: allocate_memory_outcome [where sz = ?t])
    case null
    then show ?thesis by (simp add: zero_allocate_def)
  next
    case (reuse b)
    from find_SomeD [OF reuse(2)] have "fits h ?t b" by simp
    then have "?t \<le> size_blk (blocks (reused b h) b)" by (simp add: fits_def)
    with reuse(3) show ?thesis
      by (simp add: zero_allocate_def memset_zeroed)
  next
    case grow
    then show ?thesis
      by (simp add: zero_allocate_def memset_zeroed)
  qed
qed

text \<open>Five elements of two bytes in \<open>heap2f\<close>: the first and the tenth byte are zero.\<close>

theorem zero_allocate_zeroed_witness:
  "heap_inv heap2f [0x1000, 0x1028] \<and>
   (\<exists>p h'. zero_allocate 5 2 heap2f = Some (Return (p, h')) \<and>
      bytes h' p = 0 \<and> bytes h' (p + 9) = 0)"
proof -
  have inv: "heap_inv heap2f [0x1000, 0x1028]"
    by (simp add: heap_inv_def brk_ok_def heap2f_def BLOCK_SIZE_def)
  have total: "unat (total_size 5 2) = 10" by (simp add: total_size_def)
  from zero_allocate_zeroed [OF inv, of 5 2] obtain p h' where
    run: "zero_allocate 5 2 heap2f = Some (Return (p, h'))" and
    zero: "p \<noteq> 0 \<longrightarrow> (\<forall>i < unat (total_size 5 2 :: size_t). bytes h' (p + of_nat i) = 0)"
    by blast
  have "p \<noteq> 0"
    using run
    by (simp add: zero_allocate_def total_size_def allocate_memory_def locate_free_block_def
        locate_loop.simps heap2f_def BLOCK_SIZE_def split: if_splits)
  with zero total have z: "i < 10 \<Longrightarrow> bytes h' (p + of_nat i) = 0" for i
    by simp
  have "bytes h' p = 0" "bytes h' (p + 9) = 0"
    using z [of 0] z [of 9] by simp_all
  with run inv show ?thesis by auto
qed

text \<open>
  Claim C7 as stated, with the product of the two numbers, fails when the multiplication
  overflows. For \<open>2 ^ 63 + 1\<close> elements of 2 bytes the total wraps to 2: in \<open>heap2f\<close> the
  call succeeds by reusing the free 16-byte block, but only two bytes are zeroed, and the
  byte at offset 2, far below the product, still holds its old value \<open>0x1A\<close>.
\<close>

theorem zero_allocate_product_counterexample:
  "zero_allocate (2 ^ 63 + 1) 2 heap2f = Some (Return (0x1018, heap2f_two_zeroed)) \<and>
   2 < unat (2 ^ 63 + 1 :: size_t) * unat (2 :: size_t) \<and>
   bytes heap2f_two_zeroed (0x1018 + 2) = 0x1A"
proof -
  have wrapped: "total_size (2 ^ 63 + 1) 2 = 2"
    by (simp add: total_size_def)
  have alloc: "allocate_memory 2 heap2f = Some (Return (0x1018, reused 0x1000 heap2f))"
    by (simp add: allocate_memory_def locate_free_block_def locate_loop.simps reused_def
        heap2f_def BLOCK_SIZE_def)
  have state: "memset 0x1018 0 2 (reused 0x1000 heap2f) = heap2f_two_zeroed"
    by (simp add: memset_def reused_def heap2f_def heap2f_two_zeroed_def fun_eq_iff
        cong: if_cong)
  have "zero_allocate (2 ^ 63 + 1) 2 heap2f = Some (Return (0x1018, heap2f_two_zeroed))"
    unfolding zero_allocate_def wrapped by (simp add: alloc state)
  moreover have "2 < unat (2 ^ 63 + 1 :: size_t) * unat (2 :: size_t)" by simp
  moreover have "bytes heap2f_two_zeroed (0x1018 + 2) = 0x1A"
    by (simp add: heap2f_two_zeroed_def)
  ultimately show ?thesis by blast
qed

subsection \<open>A heap that an overflowing request has left ill-formed\<close>

text \<open>\<open>heap_shrunk\<close> is reached from the fresh state by three calls of
  \<^verbatim>\<open>allocate_memory\<close>; its list is intact but its second block lies at the break, so it
  is not well-formed. There a reallocation of the live pointer \<open>0x1040\<close> to 17 bytes
  extends the heap on top of the pointer's own block and then releases it.\<close>

lemma heap_shrunk_inner:
  "allocate_memory 17 heap_shrunk = Some (Return (0x1040, heap_shrunk_grown))"
proof -
  have scan: "locate_free_block (base heap_shrunk) 17 heap_shrunk = Some (0, 0x1048)"
    by (simp add: locate_free_block_def locate_loop.simps heap_shrunk_def)
  have ext: "extend_memory 0x1048 17 heap_shrunk = Return (0x1028, heap_shrunk_grown)"
    by (simp add: extend_memory_def sbrk_def heap_shrunk_def heap_shrunk_grown_def
        BLOCK_SIZE_def Let_def fun_eq_iff)
  have "base heap_shrunk \<noteq> 0" by (simp add: heap_shrunk_def)
  then show ?thesis
    by (simp add: allocate_memory_def scan ext BLOCK_SIZE_def)
qed

lemma heap_shrunk_outer:
  "reallocate_memory 0x1040 17 heap_shrunk = Some (Return (0x1040, heap_shrunk_moved))"
proof -
  have blk: "retrieve_block_ptr 0x1040 = 0x1028"
    by (simp add: retrieve_block_ptr_def BLOCK_SIZE_def)
  have small: "\<not> 17 \<le> size_blk (blocks heap_shrunk 0x1028)"
    by (simp add: heap_shrunk_def)
  have sz: "size_blk (blocks heap_shrunk_grown 0x1028) = 17"
    by (simp add: heap_shrunk_grown_def)
  have copy: "memcpy 0x1040 0x1040 17 heap_shrunk_grown = heap_shrunk_grown"
    by (simp add: memcpy_def heap_shrunk_grown_def cong: if_cong)
  have rel: "release_memory 0x1040 heap_shrunk_grown = Return heap_shrunk_moved"
    by (simp add: release_memory_def blk Let_def)
      (simp add: heap_shrunk_grown_def heap_shrunk_moved_def fun_eq_iff)
  show ?thesis
    by (simp add: reallocate_memory_def blk small heap_shrunk_inner sz copy rel Let_def)
qed

lemma heap_shrunk_reachable:
  "\<exists>h1 h2. allocate_memory 16 heap0 = Some (Return (0x1018, h1)) \<and>
     allocate_memory 8 h1 = Some (Return (0x1040, h2)) \<and>
     allocate_memory 0xFFFFFFFFFFFFFFC8 h2 = Some (Return (0x1060, heap_shrunk))"
proof -
  let ?z = "\<lambda>a :: addr. \<lparr>size_blk = 0, next_blk = 0, free = 0, debug_flag = 0\<rparr>"
  let ?h1 = "\<lparr>base = 0x1000, brk = 0x1028, brk_min = 0x1000, brk_max = 0x1100,
     blocks = ?z
       (0x1000 := \<lparr>size_blk = 16, next_blk = 0, free = 0, debug_flag = 0x12345678\<rparr>),
     bytes = (\<lambda>a. 0xAA)\<rparr>"
  let ?h2 = "\<lparr>base = 0x1000, brk = 0x1048, brk_min = 0x1000, brk_max = 0x1100,
     blocks = ?z
       (0x1000 := \<lparr>size_blk = 16, next_blk = 0x1028, free = 0, debug_flag = 0x12345678\<rparr>,
        0x1028 := \<lparr>size_blk = 8, next_blk = 0, free = 0, debug_flag = 0x12345678\<rparr>),
     bytes = (\<lambda>a. 0xAA)\<rparr>"
  have "allocate_memory 16 heap0 = Some (Return (0x1018, ?h1))"
    by (simp add: allocate_memory_def extend_memory_def sbrk_def heap0_def BLOCK_SIZE_def
        Let_def)
  moreover have "allocate_memory 8 ?h1 = Some (Return (0x1040, ?h2))"
    by (simp add: allocate_memory_def locate_free_block_def locate_loop.simps
        extend_memory_def sbrk_def BLOCK_SIZE_def Let_def fun_eq_iff)
  moreover have "allocate_memory 0xFFFFFFFFFFFFFFC8 ?h2 = Some (Return (0x1060, heap_shrunk))"
    by (simp add: allocate_memory_def locate_free_block_def locate_loop.simps
        extend_memory_def sbrk_def BLOCK_SIZE_def Let_def heap_shrunk_def fun_eq_iff)
  ultimately show ?thesis by blast
qed

lemma heap_shrunk_not_inv: "\<not> heap_inv heap_shrunk bs"
proof
  assume inv: "heap_inv heap_shrunk bs"
  then have bl: "block_list heap_shrunk 0x1000 bs"
    by (simp add: heap_inv_def heap_shrunk_def)
  have "block_list heap_shrunk 0x1000 [0x1000, 0x1028, 0x1048]"
    by (simp add: heap_shrunk_def)
  have "0x1028 \<in> set bs"
    using bl by (cases bs; cases "tl bs") (auto simp: heap_shrunk_def)
  from heap_inv_not_brk [OF inv this] show False by (simp add: heap_shrunk_def)
qed

subsection \<open>Reallocation into a larger block\<close>

lemma regions_overlap_sym: "regions_overlap x y c = regions_overlap y x c"
  by (auto simp: regions_overlap_def)

lemma regions_apart:
  fixes x y c :: "64 word"
  assumes "unat x + unat c \<le> unat y" "unat y \<le> 2 ^ 63"
  shows "\<not> regions_overlap y x c"
proof (cases "c = 0")
  case True
  then show ?thesis by (simp add: regions_overlap_def)
next
  case False
  then have pos: "0 < unat c" by (simp add: unat_gt_0)
  have fwd: "unat (y - x) = unat y - unat x"
    using assms(1) by (simp add: unat_sub_if_size)
  from pos assms(1) have lt: "\<not> unat y \<le> unat x" by simp
  have "unat (x - y) = unat x + 2 ^ 64 - unat y"
    using lt by (simp add: unat_sub_if_size word_size)
  with assms have "unat c \<le> unat (x - y)" by simp
  moreover from fwd assms(1) have "unat c \<le> unat (y - x)" by simp
  ultimately show ?thesis
    by (simp add: regions_overlap_def word_less_nat_alt)
qed

lemma memcpy_copied:
  assumes "i < unat n"
  shows "bytes (memcpy d s n h) (d + of_nat i) = bytes h (s + of_nat i)"
proof -
  have "unat (of_nat i :: 64 word) = i"
    using assms by (intro le_unat_uoi [of _ n]) simp
  with assms have "(of_nat i :: 64 word) < n" by (simp add: word_less_nat_alt)
  then show ?thesis by (simp add: memcpy_def)
qed

lemma memcpy_fields [simp]:
  "blocks (memcpy d s n h) = blocks h" "brk (memcpy d s n h) = brk h"
  "base (memcpy d s n h) = base h" "brk_min (memcpy d s n h) = brk_min h"
  "brk_max (memcpy d s n h) = brk_max h"
  by (simp_all add: memcpy_def)

lemma reallocate_memory_moved:
  assumes inv: "heap_inv h bs" and mem: "retrieve_block_ptr p \<in> set bs"
    and live: "in_use h p"
    and big: "size_blk (blocks h (retrieve_block_ptr p)) < s"
    and alloc: "allocate_memory s h = Some (Return (q, h1))" and nz: "q \<noteq> 0"
  shows "reallocate_memory p s h =
      Some (Return (q, released p (memcpy q p (size_blk (blocks h (retrieve_block_ptr p))) h1)))"
    and "q \<noteq> p"
    and "\<not> regions_overlap q p (size_blk (blocks h (retrieve_block_ptr p)))"
    and "bytes h1 = bytes h"
    and "in_use h1 q"
    and "\<forall>r. in_use h r \<longrightarrow> in_use h1 r"
    and "s \<le> size_blk (blocks h1 (retrieve_block_ptr q))"
proof -
  let ?b = "retrieve_block_ptr p"
  let ?c = "size_blk (blocks h ?b)"
  from inv have ok: "brk_ok h" and bl: "block_list h (base h) bs"
    and lay: "layout h (unat (brk_min h)) bs"
    by (simp_all add: heap_inv_def)
  note pb = heap_inv_block [OF inv mem]
  have p_nz: "p \<noteq> 0" using pb(4) by simp
  have p_at: "unat p = unat ?b + 24" using pb(3) by simp
  have top: "unat (brk h) + 24 \<le> 2 ^ 63" using ok by (rule brk_ok_bounds)
  have c_lt: "unat ?c < unat s" using big by (simp add: word_less_nat_alt)
  have facts: "q \<noteq> p \<and> \<not> regions_overlap q p ?c \<and> bytes h1 = bytes h \<and> in_use h1 q \<and>
      (\<forall>r. in_use h r \<longrightarrow> in_use h1 r) \<and> size_blk (blocks h1 ?b) = ?c \<and>
      s \<le> size_blk (blocks h1 (retrieve_block_ptr q))"
    using ok bl
  proof (cases rule: allocate_memory_outcome [where sz = s])
    case null
    with alloc nz show ?thesis by simp
  next
    case (reuse b)
    with alloc have q: "q = b + BLOCK_SIZE" and h1: "h1 = reused b h" by simp_all
    from find_SomeD [OF reuse(2)] have b_in: "b \<in> set bs" and fit: "fits h s b" by simp_all
    note bb = heap_inv_block [OF inv b_in]
    from fit have s_le: "unat s \<le> unat (size_blk (blocks h b))"
      by (simp add: fits_def word_le_nat_alt)
    with c_lt have diff: "b \<noteq> ?b" by auto
    have q_at: "unat q = unat b + 24" using bb(3) q by simp
    from layout_separate [OF lay b_in mem diff]
    have "unat q + unat ?c \<le> unat p \<or> unat p + unat ?c \<le> unat q"
      using q_at p_at s_le c_lt unfolding unat_BLOCK_SIZE by linarith
    moreover have "unat p \<le> 2 ^ 63" "unat q \<le> 2 ^ 63"
      using p_at q_at pb(2) bb(2) top by simp_all
    ultimately have "\<not> regions_overlap q p ?c"
      using regions_apart [of q ?c p] regions_apart [of p ?c q]
      by (auto simp: regions_overlap_sym)
    moreover have "q \<noteq> p"
    proof
      assume "q = p"
      then have "retrieve_block_ptr q = ?b" by simp
      with diff show False by (simp add: q)
    qed
    ultimately show ?thesis
      using diff fit by (simp add: h1 q in_use_reused in_use_reused_new fits_def)
  next
    case grow
    with alloc have q: "q = brk h + BLOCK_SIZE" and h1: "h1 = grown bs s h" by simp_all
    have diff: "?b \<noteq> brk h" using inv mem by (rule heap_inv_not_brk)
    have q_at: "unat q = unat (brk h) + 24"
      using brk_user_pointer(1) [OF ok] q by simp
    have "unat p + unat ?c \<le> unat q" using p_at q_at pb(2) by simp
    moreover have "unat q \<le> 2 ^ 63" using q_at top by simp
    ultimately have "\<not> regions_overlap q p ?c"
      using regions_apart [of p ?c q] by simp
    moreover have "q \<noteq> p"
    proof
      assume "q = p"
      then have "retrieve_block_ptr q = ?b" by simp
      with diff show False by (simp add: q)
    qed
    ultimately show ?thesis
      using diff by (simp add: h1 q in_use_grown in_use_grown_new grown_other)
  qed
  then show "q \<noteq> p" "\<not> regions_overlap q p ?c" "bytes h1 = bytes h" "in_use h1 q"
    "\<forall>r. in_use h r \<longrightarrow> in_use h1 r" "s \<le> size_blk (blocks h1 (retrieve_block_ptr q))"
    by simp_all
  from facts live have live1: "in_use h1 p" and same: "size_blk (blocks h1 ?b) = ?c"
    by simp_all
  have "release_memory p (memcpy q p ?c h1) = Return (released p (memcpy q p ?c h1))"
    using p_nz live1 by (simp add: release_memory_live)
  with big alloc nz p_nz same
  show "reallocate_memory p s h = Some (Return (q, released p (memcpy q p ?c h1)))"
    by (simp add: reallocate_memory_def Let_def not_le [symmetric])
qed

text \<open>
  Claim C5, as the code has it. Let \<open>p\<close> be a live pointer whose block is in the list of a well-formed heap
  and records the size \<open>c\<close>, and let \<open>s\<close> exceed \<open>c\<close>. If the allocation of \<open>s\<close> bytes
  inside \<^verbatim>\<open>reallocate_memory\<close> yields a non-null pointer, the call returns that pointer,
  which differs from \<open>p\<close>; the two regions of \<open>c\<close> bytes do not overlap, so the copy is
  defined; the first \<open>c\<close> bytes behind the result equal the bytes behind \<open>p\<close> before the
  call; the old block ends up with \<^verbatim>\<open>free\<close> set to 1 and the tag \<open>0x55555555\<close>; and the
  new pointer is live, in a block that records a size of at least \<open>s\<close>.
\<close>

theorem reallocate_memory_grows:
  assumes "heap_inv h bs" "retrieve_block_ptr p \<in> set bs" "in_use h p"
    and "c = size_blk (blocks h (retrieve_block_ptr p))" "c < s"
    and "allocate_memory s h = Some (Return (q, h1))" "q \<noteq> 0"
  shows "\<exists>h'. reallocate_memory p s h = Some (Return (q, h')) \<and> q \<noteq> p \<and>
     \<not> regions_overlap q p c \<and>
     (\<forall>i < unat c. bytes h' (q + of_nat i) = bytes h (p + of_nat i)) \<and>
     free (blocks h' (retrieve_block_ptr p)) = 1 \<and>
     debug_flag (blocks h' (retrieve_block_ptr p)) = 0x55555555 \<and>
     in_use h' q \<and> s \<le> size_blk (blocks h' (retrieve_block_ptr q))"
proof -
  have big: "size_blk (blocks h (retrieve_block_ptr p)) < s"
    using assms(4,5) by simp
  note moved = reallocate_memory_moved [OF assms(1,2,3) big assms(6,7)]
  let ?h' = "released p (memcpy q p c h1)"
  have "reallocate_memory p s h = Some (Return (q, ?h'))"
    using moved(1) assms(4) by simp
  moreover have "\<forall>i < unat c. bytes ?h' (q + of_nat i) = bytes h (p + of_nat i)"
    using moved(4) by (simp add: memcpy_copied)
  moreover have "in_use ?h' q"
    using moved(2,5) by (simp add: in_use_released)
  moreover have "\<not> regions_overlap q p c"
    using moved(3) assms(4) by simp
  moreover have "s \<le> size_blk (blocks ?h' (retrieve_block_ptr q))"
    using moved(2,7) by simp
  ultimately show ?thesis
    using moved(2) by simp
qed

text \<open>In \<open>heap2f\<close> the 8-byte block behind \<open>0x1040\<close> is moved into the free 16-byte block:
  the bytes \<open>0x40 .. 0x47\<close> arrive at \<open>0x1018 .. 0x101F\<close>.\<close>

theorem reallocate_memory_grows_witness:
  "heap_inv heap2f [0x1000, 0x1028] \<and> in_use heap2f 0x1040 \<and>
   (\<exists>h'. reallocate_memory 0x1040 12 heap2f = Some (Return (0x1018, h')) \<and>
      bytes h' 0x1018 = 0x40 \<and> bytes h' 0x101F = 0x47 \<and>
      free (blocks h' 0x1028) = 1 \<and> in_use h' 0x1018)"
proof -
  have inv: "heap_inv heap2f [0x1000, 0x1028]"
    by (simp add: heap_inv_def brk_ok_def heap2f_def BLOCK_SIZE_def)
  have blk: "retrieve_block_ptr 0x1040 = 0x1028"
    by (simp add: retrieve_block_ptr_def BLOCK_SIZE_def)
  have live: "in_use heap2f 0x1040"
    by (simp add: in_use_def blk) (simp add: heap2f_def)
  have c: "(8 :: size_t) = size_blk (blocks heap2f (retrieve_block_ptr 0x1040))"
    by (simp add: blk) (simp add: heap2f_def)
  have alloc: "allocate_memory 12 heap2f = Some (Return (0x1018, reused 0x1000 heap2f))"
    by (simp add: allocate_memory_def locate_free_block_def locate_loop.simps reused_def
        heap2f_def BLOCK_SIZE_def)
  have "\<exists>h'. reallocate_memory 0x1040 12 heap2f = Some (Return (0x1018, h')) \<and>
     (0x1018 :: addr) \<noteq> 0x1040 \<and> \<not> regions_overlap 0x1018 0x1040 8 \<and>
     (\<forall>i < unat (8 :: size_t). bytes h' (0x1018 + of_nat i) = bytes heap2f (0x1040 + of_nat i)) \<and>
     free (blocks h' (retrieve_block_ptr 0x1040)) = 1 \<and>
     debug_flag (blocks h' (retrieve_block_ptr 0x1040)) = 0x55555555 \<and>
     in_use h' 0x1018 \<and> 12 \<le> size_blk (blocks h' (retrieve_block_ptr 0x1018))"
    by (rule reallocate_memory_grows [OF inv _ live c _ alloc]) (simp_all add: blk)
  then obtain h' where
    run: "reallocate_memory 0x1040 12 heap2f = Some (Return (0x1018, h'))" and
    copy: "\<And>i. i < 8 \<Longrightarrow> bytes h' (0x1018 + of_nat i) = bytes heap2f (0x1040 + of_nat i)" and
    rest: "free (blocks h' 0x1028) = 1" "in_use h' 0x1018"
    by (auto simp: blk)
  have "bytes h' 0x1018 = 0x40" "bytes h' 0x101F = 0x47"
    using copy [of 0] copy [of 7] by (simp_all add: heap2f_def)
  with run rest inv live show ?thesis by blast
qed

text \<open>
  Claim C5 as stated, for every pointer in every state, fails in \<open>heap_shrunk\<close>: the
  pointer \<open>0x1040\<close> is live and its block records 8 bytes, the allocation of 17 bytes
  inside the call succeeds, and yet the call returns \<open>0x1040\<close> itself.
\<close>

theorem reallocate_memory_same_counterexample:
  "brk_ok heap_shrunk \<and> block_list heap_shrunk (base heap_shrunk) [0x1000, 0x1028, 0x1048] \<and>
   in_use heap_shrunk 0x1040 \<and>
   size_blk (blocks heap_shrunk (retrieve_block_ptr 0x1040)) = 8 \<and>
   allocate_memory 17 heap_shrunk = Some (Return (0x1040, heap_shrunk_grown)) \<and>
   reallocate_memory 0x1040 17 heap_shrunk = Some (Return (0x1040, heap_shrunk_moved))"
proof -
  have blk: "retrieve_block_ptr 0x1040 = 0x1028"
    by (simp add: retrieve_block_ptr_def BLOCK_SIZE_def)
  have "brk_ok heap_shrunk"
    by (simp add: brk_ok_def heap_shrunk_def BLOCK_SIZE_def)
  moreover have "block_list heap_shrunk (base heap_shrunk) [0x1000, 0x1028, 0x1048]"
    by (simp add: heap_shrunk_def)
  moreover have "in_use heap_shrunk 0x1040"
    by (simp add: in_use_def blk) (simp add: heap_shrunk_def)
  moreover have "size_blk (blocks heap_shrunk (retrieve_block_ptr 0x1040)) = 8"
    by (simp add: blk) (simp add: heap_shrunk_def)
  ultimately show ?thesis
    using heap_shrunk_inner heap_shrunk_outer by simp
qed

subsection \<open>Reallocation when the allocation fails\<close>

text \<open>
  Claim C6. In a well-formed heap, for a non-null pointer whose block records less than the
  new size: if the allocation inside \<^verbatim>\<open>reallocate_memory\<close> yields the null pointer, the
  call returns the null pointer and the state is the one before the call. So the old
  block's payload, size, free flag and tag are untouched, and a live pointer stays live.
\<close>

theorem reallocate_memory_failure:
  assumes "heap_inv h bs" "p \<noteq> 0"
    and "size_blk (blocks h (retrieve_block_ptr p)) < s"
    and "allocate_memory s h = Some (Return (0, h1))"
  shows "reallocate_memory p s h = Some (Return (0, h)) \<and> h1 = h"
proof -
  from assms(1) have ok: "brk_ok h" and bl: "block_list h (base h) bs"
    by (simp_all add: heap_inv_def)
  from ok bl have "h1 = h"
  proof (cases rule: allocate_memory_outcome [where sz = s])
    case null
    with assms(4) show ?thesis by simp
  next
    case (reuse b)
    from find_SomeD [OF reuse(2)] have "b \<in> set bs" by simp
    from heap_inv_block(4) [OF assms(1) this] reuse(3) assms(4) show ?thesis by simp
  next
    case grow
    with brk_user_pointer(2) [OF ok] assms(4) show ?thesis by simp
  qed
  with assms(2,3,4) show ?thesis
    by (simp add: reallocate_memory_def Let_def not_le [symmetric])
qed

text \<open>In \<open>heap2\<close> the break cannot move by 1024 bytes, so growing the block behind
  \<open>0x1040\<close> to 1000 bytes fails and nothing changes.\<close>

theorem reallocate_memory_failure_witness:
  "heap_inv heap2 [0x1000, 0x1028] \<and> in_use heap2 0x1040 \<and>
   allocate_memory 1000 heap2 = Some (Return (0, heap2)) \<and>
   reallocate_memory 0x1040 1000 heap2 = Some (Return (0, heap2))"
proof -
  have inv: "heap_inv heap2 [0x1000, 0x1028]"
    by (simp add: heap_inv_def brk_ok_def heap2_def BLOCK_SIZE_def)
  have blk: "retrieve_block_ptr 0x1040 = 0x1028"
    by (simp add: retrieve_block_ptr_def BLOCK_SIZE_def)
  have live: "in_use heap2 0x1040"
    by (simp add: in_use_def blk) (simp add: heap2_def)
  have big: "size_blk (blocks heap2 (retrieve_block_ptr 0x1040)) < 1000"
    by (simp add: blk) (simp add: heap2_def)
  have rejected: "growth_rejected 1000 heap2"
    by (simp add: growth_rejected_def sbrk_def heap2_def BLOCK_SIZE_def Let_def)
  have none: "find (fits heap2 1000) [0x1000, 0x1028] = None"
    by (simp add: fits_def heap2_def)
  from inv have ok: "brk_ok heap2" and bl: "block_list heap2 (base heap2) [0x1000, 0x1028]"
    by (simp_all only: heap_inv_def)
  have alloc: "allocate_memory 1000 heap2 = Some (Return (0, heap2))"
    using rejected by (simp add: allocate_memory_extend [OF ok bl _ none])
  from reallocate_memory_failure [OF inv _ big alloc] inv live alloc
  show ?thesis by simp
qed

subsection \<open>Live pointers stay live\<close>








subsection \<open>Well-formedness is kept\<close>

text \<open>A process starts well-formed, and every operation keeps the heap well-formed as
  long as no request is so large that its increment wraps around or turns negative.\<close>

lemma heap_inv_initial: "brk_ok h \<Longrightarrow> base h = 0 \<Longrightarrow> heap_inv h []"
  using layout.simps(1) [of h "unat (brk_min h)"] by (simp add: heap_inv_def brk_ok_def)

lemma heap_inv_cong:
  assumes "base h' = base h" "brk h' = brk h" "brk_min h' = brk_min h" "brk_max h' = brk_max h"
    and "\<forall>a. next_blk (blocks h' a) = next_blk (blocks h a) \<and>
             size_blk (blocks h' a) = size_blk (blocks h a)"
  shows "heap_inv h' bs = heap_inv h bs"
proof -
  have "block_list h' (base h) bs = block_list h (base h) bs"
    by (rule block_list_cong) (simp add: assms(5))
  moreover have "layout h' (unat (brk_min h)) bs = layout h (unat (brk_min h)) bs"
    by (rule layout_cong) (simp_all add: assms)
  ultimately show ?thesis by (simp add: heap_inv_def brk_ok_def assms)
qed

lemma heap_inv_released: "heap_inv (released p h) bs = heap_inv h bs"
  by (rule heap_inv_cong) simp_all

lemma heap_inv_memset: "heap_inv (memset p c n h) bs = heap_inv h bs"
  by (rule heap_inv_cong) simp_all

lemma heap_inv_memcpy: "heap_inv (memcpy d s n h) bs = heap_inv h bs"
  by (rule heap_inv_cong) simp_all

lemma heap_inv_grown:
  assumes "heap_inv h bs" "\<not> growth_rejected sz h" "unat sz + unat BLOCK_SIZE < 2 ^ 63"
  shows "heap_inv (grown bs sz h) (bs @ [brk h])"
proof (cases "bs = []")
  case True
  with assms show ?thesis by (simp add: grown_def heap_inv_first)
next
  case False
  with assms show ?thesis by (simp add: grown_def heap_inv_extended)
qed

lemma release_memory_heap_inv:
  "heap_inv h bs \<Longrightarrow> release_memory p h = Return h' \<Longrightarrow> heap_inv h' bs"
  using heap_inv_released [of p h bs]
  by (auto simp: release_memory_def released_def Let_def split: if_splits)

lemma allocate_memory_heap_inv:
  assumes inv: "heap_inv h bs"
    and fair: "find (fits h sz) bs \<noteq> None \<or> unat sz + unat BLOCK_SIZE < 2 ^ 63"
    and run: "allocate_memory sz h = Some (Return (p, h'))"
  shows "heap_inv h' (if p \<noteq> 0 \<and> find (fits h sz) bs = None then bs @ [brk h] else bs)"
proof -
  from inv have ok: "brk_ok h" and bl: "block_list h (base h) bs"
    by (simp_all add: heap_inv_def)
  from ok bl show ?thesis
  proof (cases rule: allocate_memory_outcome [where sz = sz])
    case null
    with run inv show ?thesis by simp
  next
    case (reuse b)
    with run have "h' = reused b h" by simp
    with reuse inv show ?thesis by (simp add: heap_inv_reused)
  next
    case grow
    with run have "h' = grown bs sz h" "p = brk h + BLOCK_SIZE" by simp_all
    with grow inv fair brk_user_pointer(2) [OF ok] show ?thesis
      by (simp add: heap_inv_grown)
  qed
qed

lemma zero_allocate_heap_inv:
  assumes inv: "heap_inv h bs"
    and fair: "find (fits h (total_size n k)) bs \<noteq> None \<or>
               unat (total_size n k) + unat BLOCK_SIZE < 2 ^ 63"
    and run: "zero_allocate n k h = Some (Return (p, h'))"
  shows "heap_inv h'
     (if p \<noteq> 0 \<and> find (fits h (total_size n k)) bs = None then bs @ [brk h] else bs)"
proof -
  from run obtain h1 where
    alloc: "allocate_memory (total_size n k) h = Some (Return (p, h1))" and
    h': "h' = (if p \<noteq> 0 then memset p 0 (total_size n k) h1 else h1)"
    by (auto simp: zero_allocate_def split: option.splits result.splits if_splits)
  from allocate_memory_heap_inv [OF inv fair alloc] show ?thesis
    unfolding h' by (auto simp: heap_inv_memset split: if_splits)
qed

lemma reallocate_memory_heap_inv:
  assumes inv: "heap_inv h bs"
    and fair: "find (fits h sz) bs \<noteq> None \<or> unat sz + unat BLOCK_SIZE < 2 ^ 63"
    and run: "reallocate_memory ptr sz h = Some (Return (p, h'))"
  shows "heap_inv h' bs \<or> heap_inv h' (bs @ [brk h])"
proof (cases "ptr = 0 \<or> sz \<le> size_blk (blocks h (retrieve_block_ptr ptr))")
  case True
  show ?thesis
  proof (cases "ptr = 0")
    case True
    with run have "allocate_memory sz h = Some (Return (p, h'))"
      by (simp add: reallocate_memory_def)
    from allocate_memory_heap_inv [OF inv fair this] show ?thesis
      by (simp split: if_splits)
  next
    case False
    with True run have "h' = h" by (simp add: reallocate_memory_def Let_def)
    with inv show ?thesis by simp
  qed
next
  case False
  with run obtain q h1 where alloc: "allocate_memory sz h = Some (Return (q, h1))"
    by (auto simp: reallocate_memory_def Let_def split: option.splits result.splits)
  from allocate_memory_heap_inv [OF inv fair alloc]
  have inv1: "heap_inv h1 bs \<or> heap_inv h1 (bs @ [brk h])"
    by (simp split: if_splits)
  show ?thesis
  proof (cases "q = 0")
    case True
    with False run alloc inv1 show ?thesis
      by (simp add: reallocate_memory_def Let_def)
  next
    case nz: False
    let ?m = "memcpy q ptr (size_blk (blocks h1 (retrieve_block_ptr ptr))) h1"
    from False run alloc nz have "release_memory ptr ?m = Return h'"
      by (simp add: reallocate_memory_def Let_def split: result.splits)
    moreover from inv1 have "heap_inv ?m bs \<or> heap_inv ?m (bs @ [brk h])"
      by (simp add: heap_inv_memcpy)
    ultimately show ?thesis
      by (auto dest: release_memory_heap_inv)
  qed
qed

subsection \<open>Release\<close>

text \<open>
  Claim C9. \<^verbatim>\<open>release_memory\<close> on the null pointer returns with the state unchanged. On
  a pointer whose block is not free and carries one of the two in-use tags it returns, and
  the only change is that the block's \<^verbatim>\<open>free\<close> becomes 1 and its tag becomes
  \<open>0x55555555\<close>. It aborts exactly when the pointer is not null and the block is already
  marked free or its tag is neither \<open>0x77777777\<close> nor \<open>0x12345678\<close>.
\<close>

theorem release_memory_cases:
  "release_memory 0 h = Return h \<and>
   (ptr \<noteq> 0 \<and> in_use h ptr \<longrightarrow>
      release_memory ptr h =
        Return (h\<lparr>blocks := (blocks h)(retrieve_block_ptr ptr :=
                  (blocks h (retrieve_block_ptr ptr))\<lparr>free := 1, debug_flag := 0x55555555\<rparr>)\<rparr>)) \<and>
   (release_memory ptr h = Abort \<longleftrightarrow>
      ptr \<noteq> 0 \<and> (free (blocks h (retrieve_block_ptr ptr)) \<noteq> 0 \<or>
                 (debug_flag (blocks h (retrieve_block_ptr ptr)) \<noteq> 0x77777777 \<and>
                  debug_flag (blocks h (retrieve_block_ptr ptr)) \<noteq> 0x12345678)))"
  by (auto simp: release_memory_def in_use_def Let_def)

text \<open>In \<open>heap2\<close> the pointer \<open>0x1018\<close> is live; releasing it marks the block at
  \<open>0x1000\<close>, and releasing it a second time aborts.\<close>

theorem release_memory_cases_witness:
  "in_use heap2 0x1018 \<and>
   (\<exists>h'. release_memory 0x1018 heap2 = Return h' \<and>
      free (blocks h' 0x1000) = 1 \<and> debug_flag (blocks h' 0x1000) = 0x55555555 \<and>
      release_memory 0x1018 h' = Abort)"
  using release_memory_cases [of heap2 "0x1018"]
    release_memory_cases [of "heap2\<lparr>blocks := (blocks heap2)(retrieve_block_ptr 0x1018 :=
        (blocks heap2 (retrieve_block_ptr 0x1018))\<lparr>free := 1, debug_flag := 0x55555555\<rparr>)\<rparr>"
      "0x1018"]
  by (simp add: in_use_def heap2_def retrieve_block_ptr_def BLOCK_SIZE_def)

subsection \<open>Reallocation within the recorded size\<close>

text \<open>
  Claim C4. For a non-null pointer whose block records a size of at least the new size,
  \<^verbatim>\<open>reallocate_memory\<close> returns that same pointer and the whole state, hence the block's
  size, link, free flag and tag and every payload byte, is unchanged.
\<close>

theorem reallocate_memory_sufficient:
  "ptr \<noteq> 0 \<Longrightarrow> sz \<le> size_blk (blocks h (retrieve_block_ptr ptr)) \<Longrightarrow>
   reallocate_memory ptr sz h = Some (Return (ptr, h))"
  by (simp add: reallocate_memory_def Let_def)

theorem reallocate_memory_sufficient_witness:
  "(0x1018 :: addr) \<noteq> 0 \<and>
   (10 :: size_t) \<le> size_blk (blocks heap2 (retrieve_block_ptr 0x1018)) \<and>
   reallocate_memory 0x1018 10 heap2 = Some (Return (0x1018, heap2))"
  using reallocate_memory_sufficient [of "0x1018" 10 heap2]
  by (simp add: heap2_def retrieve_block_ptr_def BLOCK_SIZE_def)

subsection \<open>The size computed by the zeroing allocator\<close>

text \<open>
  Claim C8. The total of \<^verbatim>\<open>zero_allocate\<close> is the product of the two arguments modulo
  \<open>2 ^ 64\<close>. The call behaves exactly as the call with that total and element size 1, so
  arguments whose product overflows are treated as the wrapped total; and it is the
  allocator's result for that total, zero-filled over that total when not null.
\<close>

theorem zero_allocate_unchecked_product:
  "unat (total_size n k) = (unat n * unat k) mod 2 ^ 64 \<and>
   zero_allocate n k h = zero_allocate (total_size n k) 1 h \<and>
   zero_allocate n k h =
     (case allocate_memory (total_size n k) h of
        None \<Rightarrow> None
      | Some Abort \<Rightarrow> Some Abort
      | Some (Return (ptr, h1)) \<Rightarrow>
          Some (Return (ptr, if ptr \<noteq> 0 then memset ptr 0 (total_size n k) h1 else h1)))"
  by (auto simp: total_size_def zero_allocate_def unat_word_ariths
      split: option.splits result.splits)

text \<open>\<open>2 ^ 63 + 1\<close> elements of 2 bytes are treated as a request for 2 bytes.\<close>

theorem zero_allocate_unchecked_product_witness:
  "unat (total_size (2 ^ 63 + 1) 2) = 2 \<and>
   zero_allocate (2 ^ 63 + 1) 2 heap0 = zero_allocate 2 1 heap0"
proof -
  have wrapped: "total_size (2 ^ 63 + 1) 2 = 2"
    by (simp add: total_size_def)
  show ?thesis
    using zero_allocate_unchecked_product [of "2 ^ 63 + 1" 2 heap0]
    by (simp only: wrapped) simp
qed

end
